theory Spec2Isabelle
  imports Main "HOL-Library.Word" "HOL-Library.Char_ord" "HOL-Library.List_Lexorder"
begin

section \<open>Go standard library: strings and paths\<close>

text \<open>
  A Go string is a sequence of bytes, modelled as \<^typ>\<open>string\<close>. The program calls
  \<open>strings.Split\<close> and \<open>strings.ReplaceAll\<close> with one-byte separators only
  (\<open>"."\<close>, \<open>"-"\<close>, \<open>"_"\<close>), so the separator is a \<^typ>\<open>char\<close> here.
\<close>

definition HasPrefix :: "string \<Rightarrow> string \<Rightarrow> bool" where
  "HasPrefix s p = (take (length p) s = p)"

text \<open>\<open>strings.Split(s, sep)\<close>: the substrings between the separators; never an empty slice.\<close>

primrec Split :: "string \<Rightarrow> char \<Rightarrow> string list" where
  "Split [] sep = [[]]"
| "Split (c # cs) sep =
     (if c = sep then [] # Split cs sep
      else (case Split cs sep of [] \<Rightarrow> [[c]] | s # ss \<Rightarrow> (c # s) # ss))"

definition ReplaceAll :: "string \<Rightarrow> char \<Rightarrow> char \<Rightarrow> string" where
  "ReplaceAll s old new = map (\<lambda>c. if c = old then new else c) s"

text \<open>
  \<open>path.Base\<close>: the last element of a slash-separated path. Trailing slashes are removed
  first; the empty path gives \<open>"."\<close> and a path of slashes only gives \<open>"/"\<close>.
\<close>

definition pathBase :: "string \<Rightarrow> string" where
  "pathBase p =
     (if p = [] then ''.''
      else let stripped = rev (dropWhile (\<lambda>c. c = CHR ''/'') (rev p));
               lastElem = rev (takeWhile (\<lambda>c. c \<noteq> CHR ''/'') (rev stripped))
           in if lastElem = [] then ''/'' else lastElem)"

text \<open>
  \<open>path.Clean\<close>, element by element: empty and \<open>.\<close> elements are dropped, a \<open>..\<close>
  element removes the element before it (at the root it is dropped, at the start of a
  relative path it is kept), and an empty result is \<open>"."\<close>.
\<close>

definition cleanStep :: "bool \<Rightarrow> string list \<Rightarrow> string \<Rightarrow> string list" where
  "cleanStep rooted out e =
     (if e = [] \<or> e = ''.'' then out
      else if e = ''..'' then
        (if out \<noteq> [] \<and> last out \<noteq> ''..'' then butlast out
         else if rooted then out
         else out @ [e])
      else out @ [e])"

fun joinSlash :: "string list \<Rightarrow> string" where
  "joinSlash [] = []"
| "joinSlash [e] = e"
| "joinSlash (e # e' # es) = e @ CHR ''/'' # joinSlash (e' # es)"

definition pathClean :: "string \<Rightarrow> string" where
  "pathClean p =
     (if p = [] then ''.''
      else let rooted = (hd p = CHR ''/'');
               out = foldl (cleanStep rooted) [] (Split p (CHR ''/''));
               s = (if rooted then ''/'' else []) @ joinSlash out
           in if s = [] then ''.'' else s)"

text \<open>\<open>path.Join\<close>: leading empty elements are ignored, the rest joined by slashes and cleaned.\<close>

definition pathJoin :: "string list \<Rightarrow> string" where
  "pathJoin elems =
     (if concat elems = [] then []
      else pathClean (joinSlash (dropWhile (\<lambda>e. e = []) elems)))"

section \<open>The program's state and its environment\<close>

text \<open>
  \<open>imagePrefix\<close> (main.go, line 33) marks the files the program manages.
\<close>

definition imagePrefix :: string where
  "imagePrefix = ''gnome-spotlight_''"

text \<open>
  \<open>Application\<close> (main.go, lines 25-29) without its logger: no claim is about log
  output, so \<open>slog\<close> calls are left out of the model. \<open>uint\<close> is 64 bits wide on the
  platforms the program targets.
\<close>

record Application =
  dir :: string
  preserve :: "64 word"

text \<open>
  A file of the image directory: what \<open>os.FileInfo\<close> reports of it (\<open>Name\<close>,
  \<open>ModTime\<close> in nanoseconds), its bytes, and whether the file system refuses to unlink it.
\<close>

record fileInfo =
  Name :: string
  ModTime :: int
  contents :: string
  immutable :: bool

datatype dirkind = Absent | NotADir | Dir

text \<open>An HTTP response: status, the bytes the body delivers, and whether the body then
  ends in a read error instead of end-of-file.\<close>

record response =
  StatusCode :: int
  Body :: string
  BodyErr :: bool

text \<open>The outcome of running \<open>dconf write key value\<close>: success, a non-zero exit with
  its standard error, or a failure to run the command at all.\<close>

datatype execResult = ExecOk | ExitError string | StartError

text \<open>
  Everything outside the process that the program reads or changes: the \<open>LANG\<close>
  variable, the HTTP servers (\<open>None\<close> is a transport error), the image directory
  \<open>a.dir\<close> (what it is, its permissions, its entries, how many bytes a new file takes
  before a write fails, the clock that stamps new files) and the dconf database with the
  list of \<open>dconf write\<close> invocations so far. \<open>spareCap\<close> belongs to the Go runtime:
  \<open>spareCap w n\<close> is the number of unused places in the capacity of a slice that
  \<open>append\<close> has filled, one element at a time, to \<open>n\<close> elements.
\<close>

record world =
  LANG :: string
  httpGet :: "string \<Rightarrow> response option"
  dirKind :: dirkind
  dirReadable :: bool
  dirSearchable :: bool
  dirWritable :: bool
  files :: "fileInfo list"
  writeLimit :: "nat option"
  now :: int
  spareCap :: "nat \<Rightarrow> nat"
  dconfExec :: "string \<Rightarrow> string \<Rightarrow> execResult"
  dconfDb :: "string \<rightharpoonup> string"
  dconfCalls :: "(string \<times> string) list"

text \<open>One constructor for each error return of the source, and one for each run-time
  panic: an out-of-range slice expression, and a method call on a nil entry.\<close>

datatype error =
    ErrParseLocale
  | ErrParseCountry
  | ErrApiRequest
  | ErrApiStatus int
  | ErrDecodeBody
  | ErrNoImages
  | ErrDecodeMetadata
  | ErrGetImageUrl error
  | ErrFetchImage
  | ErrImageStatus int
  | ErrStatImageDir
  | ErrNotADirectory
  | ErrImageExists
  | ErrCreateImageFile
  | ErrWriteImageFile
  | ErrExecDconf "string option"
  | ErrReadDir
  | ErrGetFileInfo
  | ErrDeleteImage
  | PanicSliceBounds
  | PanicNilEntry

subsection \<open>Operating-system calls on the image directory\<close>

text \<open>
  Every path the program hands to \<open>os.Stat\<close>, \<open>os.Create\<close> and \<open>os.Remove\<close> (other
  than \<open>a.dir\<close> itself) is \<open>path.Join(a.dir, name)\<close>; the call acts on the entry of the
  image directory named by the path's last element.
\<close>

definition lookupFile :: "world \<Rightarrow> string \<Rightarrow> fileInfo option" where
  "lookupFile w n = find (\<lambda>f. Name f = n) (files w)"

text \<open>\<open>os.ReadDir\<close> lists the entries sorted by file name.\<close>

definition osReadDir :: "world \<Rightarrow> fileInfo list option" where
  "osReadDir w =
     (if dirKind w = Dir \<and> dirReadable w then Some (sort_key Name (files w)) else None)"

text \<open>\<open>entry.Info()\<close>: an \<open>lstat\<close> of the entry.\<close>

definition entryInfo :: "world \<Rightarrow> fileInfo \<Rightarrow> fileInfo option" where
  "entryInfo w entry = (if dirSearchable w then lookupFile w (Name entry) else None)"

definition osRemove :: "world \<Rightarrow> string \<Rightarrow> world option" where
  "osRemove w p =
     (if dirKind w = Dir \<and> dirSearchable w \<and> dirWritable w
      then (case lookupFile w (pathBase p) of
              None \<Rightarrow> None
            | Some f \<Rightarrow>
                if immutable f then None
                else Some (w\<lparr>files := filter (\<lambda>g. Name g \<noteq> pathBase p) (files w)\<rparr>))
      else None)"

section \<open>cleanImages (main.go, lines 92-136)\<close>

text \<open>The first loop (lines 103-115): the \<open>FileInfo\<close> of every entry with the prefix.\<close>

fun managedInfos :: "world \<Rightarrow> fileInfo list \<Rightarrow> fileInfo list \<Rightarrow> error + fileInfo list" where
  "managedInfos w [] acc = Inr acc"
| "managedInfos w (entry # entries) acc =
     (if HasPrefix (Name entry) imagePrefix
      then (case entryInfo w entry of
              None \<Rightarrow> Inl ErrGetFileInfo
            | Some info \<Rightarrow> managedInfos w entries (acc @ [info]))
      else managedInfos w entries acc)"

text \<open>The second loop (lines 127-133): removals are not undone when a later one fails.\<close>

fun deleteImages :: "string \<Rightarrow> fileInfo list \<Rightarrow> world \<Rightarrow> error option \<times> world" where
  "deleteImages d [] w = (None, w)"
| "deleteImages d (f # fs) w =
     (case osRemove w (pathJoin [d, Name f]) of
        None \<Rightarrow> (Some ErrDeleteImage, w)
      | Some w' \<Rightarrow> deleteImages d fs w')"

text \<open>The value of an arithmetic expression of Go's type \<open>int\<close>: 64 bits, wrapping.\<close>

definition goInt :: "int \<Rightarrow> int" where
  "goInt i = sint (word_of_int i :: 64 word)"

text \<open>
  \<open>int(preserve)\<close> reinterprets the unsigned value as signed (\<^const>\<open>sint\<close>).
  \<open>slices.SortFunc\<close> with the comparison of modification times is modelled by
  \<^const>\<open>sort_key\<close>; Go's sort is not stable, so the two may order files of equal
  modification time differently (and agree when no two files have the same, lemma
  \<open>sorted_distinct_keys_unique\<close>). The slice expression \<open>files[:len(files)-int(preserve)]\<close>
  panics when its bound is negative or beyond the capacity of \<open>files\<close>; the capacity
  is 0 for the nil slice and what \<open>append\<close> made it otherwise. A bound beyond the
  length but within the capacity gives all the files followed by nil entries: the loop
  removes the files, and then \<open>file.Name()\<close> on the first nil entry panics.
\<close>

definition cleanImages :: "Application \<Rightarrow> 64 word \<Rightarrow> world \<Rightarrow> error option \<times> world" where
  "cleanImages a preserve' w =
     (if preserve' = 0 then (None, w)
      else case osReadDir w of
        None \<Rightarrow> (Some ErrReadDir, w)
      | Some entries \<Rightarrow>
          (case managedInfos w entries [] of
             Inl e \<Rightarrow> (Some e, w)
           | Inr fs \<Rightarrow>
               if int (length fs) \<le> sint preserve' then (None, w)
               else let sorted = sort_key ModTime fs;
                        hi = goInt (int (length fs) - sint preserve');
                        cap = (if fs = [] then 0 else length fs + spareCap w (length fs))
                    in if hi < 0 \<or> int cap < hi then (Some PanicSliceBounds, w)
                       else if hi \<le> int (length fs)
                         then deleteImages (dir a) (take (nat hi) sorted) w
                         else (case deleteImages (dir a) sorted w of
                                 (None, w') \<Rightarrow> (Some PanicNilEntry, w')
                               | (Some e, w') \<Rightarrow> (Some e, w'))))"

section \<open>writeToDconf (main.go, lines 139-167)\<close>

definition dconfKeys :: "string list" where
  "dconfKeys =
     [''/org/gnome/desktop/background/picture-uri'',
      ''/org/gnome/desktop/background/picture-uri-dark'',
      ''/org/gnome/desktop/screensaver/picture-uri'']"

text \<open>\<open>fmt.Sprintf("'file://%s'", imagePath)\<close>; \<open>CHR 0x27\<close> is the single quote.\<close>

definition dconfValue :: "string \<Rightarrow> string" where
  "dconfValue imagePath = CHR 0x27 # ''file://'' @ imagePath @ [CHR 0x27]"

text \<open>
  \<open>exec.Command("dconf", "write", key, value).Output()\<close>: the invocation is recorded,
  and a successful one stores the value under the key. A failed invocation is taken to
  leave the database as it was.
\<close>

definition dconfWrite :: "string \<Rightarrow> string \<Rightarrow> world \<Rightarrow> execResult \<times> world" where
  "dconfWrite key v w =
     (let w1 = w\<lparr>dconfCalls := dconfCalls w @ [(key, v)]\<rparr>
      in case dconfExec w key v of
           ExecOk \<Rightarrow> (ExecOk, w1\<lparr>dconfDb := (dconfDb w)(key \<mapsto> v)\<rparr>)
         | r \<Rightarrow> (r, w1))"

text \<open>The loop over the keys (lines 146-164). An \<open>ExitError\<close> is reported with its
  standard error, any other failure without.\<close>

fun writeKeys :: "string \<Rightarrow> string list \<Rightarrow> world \<Rightarrow> error option \<times> world" where
  "writeKeys imagePath [] w = (None, w)"
| "writeKeys imagePath (key # keys) w =
     (case dconfWrite key (dconfValue imagePath) w of
        (ExecOk, w1) \<Rightarrow> writeKeys imagePath keys w1
      | (ExitError stderr, w1) \<Rightarrow> (Some (ErrExecDconf (Some stderr)), w1)
      | (StartError, w1) \<Rightarrow> (Some (ErrExecDconf None), w1))"

definition writeToDconf :: "string \<Rightarrow> world \<Rightarrow> error option \<times> world" where
  "writeToDconf imagePath w = writeKeys imagePath dconfKeys w"

section \<open>Go standard library: encoding/json\<close>

text \<open>
  \<open>json.NewDecoder(r).Decode(&v)\<close> reads the next JSON value of the stream and
  stores it in a Go value. The model has the two steps apart: the text is parsed to a
  \<open>json\<close> value (a syntax error, or a stream that ends early, is \<open>None\<close>), and the value
  is stored in the structs \<open>body\<close> and \<open>metadata\<close> of the program (a JSON value of the
  wrong type for a field is \<open>None\<close>).
\<close>

datatype json =
    JNull
  | JBool bool
  | JNumber string
  | JString string
  | JArray "json list"
  | JObject "(string \<times> json) list"

definition isSpace :: "char \<Rightarrow> bool" where
  "isSpace c = (c = CHR '' '' \<or> c = CHR 0x09 \<or> c = CHR 0x0D \<or> c = CHR 0x0A)"

definition skipSpace :: "string \<Rightarrow> string" where
  "skipSpace s = dropWhile isSpace s"

definition isDigit :: "char \<Rightarrow> bool" where
  "isDigit c = (c \<in> set ''0123456789'')"

definition hexVal :: "char \<Rightarrow> nat option" where
  "hexVal c = map_of (zip ''0123456789abcdefABCDEF''
                 [0, 1, 2, 3, 4, 5, 6, 7, 8, 9, 10, 11, 12, 13, 14, 15, 10, 11, 12, 13, 14, 15]) c"

text \<open>\<open>getu4\<close> on the text after \<open>\u\<close>: the value of four hexadecimal digits.\<close>

definition hex4 :: "string \<Rightarrow> nat option" where
  "hex4 s =
     (case map hexVal (take 4 s) of
        [Some a, Some b, Some c, Some d] \<Rightarrow> Some (((a * 16 + b) * 16 + c) * 16 + d)
      | _ \<Rightarrow> None)"

text \<open>\<open>utf8.EncodeRune\<close> for a code point that is not a surrogate.\<close>

definition encodeRune :: "nat \<Rightarrow> string" where
  "encodeRune r =
     (if r < 0x80 then [char_of r]
      else if r < 0x800 then [char_of (0xC0 + r div 64), char_of (0x80 + r mod 64)]
      else if r < 0x10000 then
        [char_of (0xE0 + r div 4096), char_of (0x80 + r div 64 mod 64), char_of (0x80 + r mod 64)]
      else
        [char_of (0xF0 + r div 262144), char_of (0x80 + r div 4096 mod 64),
         char_of (0x80 + r div 64 mod 64), char_of (0x80 + r mod 64)])"

text \<open>The replacement character U+FFFD in UTF-8.\<close>

definition replacementChar :: string where
  "replacementChar = [CHR 0xEF, CHR 0xBF, CHR 0xBD]"

text \<open>
  \<open>utf8.DecodeRune\<close>, as far as the decoder of string literals needs it: the number of
  bytes of the well-formed UTF-8 sequence the bytes start with, or 0 when they start
  with none. The argument is the bytes as numbers.
\<close>

definition utf8Size :: "nat list \<Rightarrow> nat" where
  "utf8Size bs =
     (case bs of
        [] \<Rightarrow> 0
      | b0 # r0 \<Rightarrow>
          let cont = (\<lambda>b. 0x80 \<le> b \<and> b \<le> 0xBF);
              lo = (if b0 = 0xE0 then 0xA0 else if b0 = 0xF0 then 0x90 else 0x80);
              hi = (if b0 = 0xED then 0x9F else if b0 = 0xF4 then 0x8F else 0xBF)
          in if 0xC2 \<le> b0 \<and> b0 \<le> 0xDF then
               (case r0 of b1 # _ \<Rightarrow> if cont b1 then 2 else 0 | _ \<Rightarrow> 0)
             else if 0xE0 \<le> b0 \<and> b0 \<le> 0xEF then
               (case r0 of
                  b1 # b2 # _ \<Rightarrow> if lo \<le> b1 \<and> b1 \<le> hi \<and> cont b2 then 3 else 0
                | _ \<Rightarrow> 0)
             else if 0xF0 \<le> b0 \<and> b0 \<le> 0xF4 then
               (case r0 of
                  b1 # b2 # b3 # _ \<Rightarrow>
                    if lo \<le> b1 \<and> b1 \<le> hi \<and> cont b2 \<and> cont b3 then 4 else 0
                | _ \<Rightarrow> 0)
             else 0)"

text \<open>The characters an escape sequence \<open>\c\<close> stands for (\<open>\u\<close> apart).\<close>

definition escapeChar :: "char \<Rightarrow> char option" where
  "escapeChar e =
     map_of [(CHR 0x22, CHR 0x22), (CHR 0x5C, CHR 0x5C), (CHR ''/'', CHR ''/''),
             (CHR ''b'', CHR 0x08), (CHR ''f'', CHR 0x0C), (CHR ''n'', CHR 0x0A),
             (CHR ''r'', CHR 0x0D), (CHR ''t'', CHR 0x09)] e"

text \<open>
  The rune of a \<open>\uXXXX\<close> escape with value \<open>r\<close>, given the text after it: the pair of
  a high and a low surrogate is one code point (and the second escape is consumed), a
  lone surrogate is U+FFFD. The result is the UTF-8 bytes and the number of bytes of
  the following text that were consumed.
\<close>

definition unicodeEscape :: "nat \<Rightarrow> string \<Rightarrow> string \<times> nat" where
  "unicodeEscape r after =
     (if 0xD800 \<le> r \<and> r < 0xE000 then
        (case (if take 2 after = [CHR 0x5C, CHR ''u''] then hex4 (drop 2 after) else None) of
           Some r2 \<Rightarrow>
             if r < 0xDC00 \<and> 0xDC00 \<le> r2 \<and> r2 < 0xE000
             then (encodeRune ((r - 0xD800) * 1024 + (r2 - 0xDC00) + 0x10000), 6)
             else (replacementChar, 0)
         | None \<Rightarrow> (replacementChar, 0))
      else (encodeRune r, 0))"

text \<open>
  A string literal after its opening quote: the decoded bytes and the text after the
  closing quote. Control characters and unknown escapes are syntax errors; bytes that
  are not well-formed UTF-8 become U+FFFD.
\<close>

function parseStr :: "string \<Rightarrow> string \<Rightarrow> (string \<times> string) option" where
  "parseStr acc [] = None"
| "parseStr acc (c # cs) =
     (if c = CHR 0x22 then Some (acc, cs)
      else if c = CHR 0x5C then
        (case cs of
           [] \<Rightarrow> None
         | e # es \<Rightarrow>
             if e = CHR ''u'' then
               (case hex4 es of
                  None \<Rightarrow> None
                | Some r \<Rightarrow>
                    parseStr (acc @ fst (unicodeEscape r (drop 4 es)))
                      (drop (4 + snd (unicodeEscape r (drop 4 es))) es))
             else (case escapeChar e of
                     None \<Rightarrow> None
                   | Some x \<Rightarrow> parseStr (acc @ [x]) es))
      else if (of_char c :: nat) < 0x20 then None
      else if (of_char c :: nat) < 0x80 then parseStr (acc @ [c]) cs
      else if utf8Size (map of_char (take 4 (c # cs))) = 0
        then parseStr (acc @ replacementChar) cs
        else parseStr (acc @ take (utf8Size (map of_char (take 4 (c # cs)))) (c # cs))
               (drop (utf8Size (map of_char (take 4 (c # cs))) - 1) cs))"
  by pat_completeness auto
termination
  by (relation "measure (\<lambda>(acc, s). length s)") auto

text \<open>A number literal at the start of the text: the literal and the text after it.\<close>

definition digitsThen :: "string \<Rightarrow> (string \<Rightarrow> string option) \<Rightarrow> string option" where
  "digitsThen s k = (if takeWhile isDigit s = [] then None else k (dropWhile isDigit s))"

definition parseExponent :: "string \<Rightarrow> string option" where
  "parseExponent s =
     (case s of
        [] \<Rightarrow> Some s
      | c # cs \<Rightarrow>
          if c = CHR ''e'' \<or> c = CHR ''E'' then
            (case cs of
               [] \<Rightarrow> None
             | c' # cs' \<Rightarrow>
                 digitsThen (if c' = CHR ''+'' \<or> c' = CHR ''-'' then cs' else cs) Some)
          else Some s)"

definition parseFraction :: "string \<Rightarrow> string option" where
  "parseFraction s =
     (case s of
        [] \<Rightarrow> Some s
      | c # cs \<Rightarrow> if c = CHR ''.'' then digitsThen cs parseExponent else parseExponent s)"

definition parseNumber :: "string \<Rightarrow> (string \<times> string) option" where
  "parseNumber s =
     (let s1 = (case s of [] \<Rightarrow> s | c # cs \<Rightarrow> if c = CHR ''-'' then cs else s);
          after = (case s1 of
                     [] \<Rightarrow> None
                   | c # cs \<Rightarrow>
                       if c = CHR ''0'' then parseFraction cs
                       else if isDigit c then parseFraction (dropWhile isDigit cs)
                       else None)
      in case after of
           None \<Rightarrow> None
         | Some r \<Rightarrow> Some (take (length s - length r) s, r))"

text \<open>The scanner refuses more than 10000 nested arrays and objects.\<close>

definition maxNestingDepth :: nat where
  "maxNestingDepth = 10000"

text \<open>
  A value at the start of the text (white space already skipped), with the text after
  it. \<open>d\<close> is the number of arrays and objects the value is nested in. The first
  argument bounds the number of nested calls; \<open>jsonValue\<close> below passes a bound that
  the text cannot exhaust, since two nested calls in a row consume a character (lemma
  \<open>parseValue_bound_enough\<close>).
\<close>

fun parseValue :: "nat \<Rightarrow> nat \<Rightarrow> string \<Rightarrow> (json \<times> string) option"
  and parseElements :: "nat \<Rightarrow> nat \<Rightarrow> json list \<Rightarrow> string \<Rightarrow> (json \<times> string) option"
  and parseMembers ::
    "nat \<Rightarrow> nat \<Rightarrow> (string \<times> json) list \<Rightarrow> string \<Rightarrow> (json \<times> string) option"
where
  "parseValue 0 d s = None"
| "parseValue (Suc n) d s =
     (case s of
        [] \<Rightarrow> None
      | c # cs \<Rightarrow>
          if c = CHR ''{'' then
            (if maxNestingDepth \<le> d then None
             else case skipSpace cs of
                    [] \<Rightarrow> None
                  | c' # cs' \<Rightarrow>
                      if c' = CHR ''}'' then Some (JObject [], cs')
                      else parseMembers n (Suc d) [] (c' # cs'))
          else if c = CHR ''['' then
            (if maxNestingDepth \<le> d then None
             else case skipSpace cs of
                    [] \<Rightarrow> None
                  | c' # cs' \<Rightarrow>
                      if c' = CHR '']'' then Some (JArray [], cs')
                      else parseElements n (Suc d) [] (c' # cs'))
          else if c = CHR 0x22 then
            (case parseStr [] cs of None \<Rightarrow> None | Some (str, r) \<Rightarrow> Some (JString str, r))
          else if HasPrefix s ''true'' then Some (JBool True, drop 4 s)
          else if HasPrefix s ''false'' then Some (JBool False, drop 5 s)
          else if HasPrefix s ''null'' then Some (JNull, drop 4 s)
          else (case parseNumber s of None \<Rightarrow> None | Some (lit, r) \<Rightarrow> Some (JNumber lit, r)))"
| "parseElements 0 d acc s = None"
| "parseElements (Suc n) d acc s =
     (case parseValue n d s of
        None \<Rightarrow> None
      | Some (v, r) \<Rightarrow>
          (case skipSpace r of
             [] \<Rightarrow> None
           | c # cs \<Rightarrow>
               if c = CHR '','' then parseElements n d (acc @ [v]) (skipSpace cs)
               else if c = CHR '']'' then Some (JArray (acc @ [v]), cs)
               else None))"
| "parseMembers 0 d acc s = None"
| "parseMembers (Suc n) d acc s =
     (case s of
        [] \<Rightarrow> None
      | q # s1 \<Rightarrow>
          if q \<noteq> CHR 0x22 then None
          else (case parseStr [] s1 of
                  None \<Rightarrow> None
                | Some (k, r1) \<Rightarrow>
                    (case skipSpace r1 of
                       [] \<Rightarrow> None
                     | c # r2 \<Rightarrow>
                         if c \<noteq> CHR '':'' then None
                         else (case parseValue n d (skipSpace r2) of
                                 None \<Rightarrow> None
                               | Some (v, r3) \<Rightarrow>
                                   (case skipSpace r3 of
                                      [] \<Rightarrow> None
                                    | c' # r4 \<Rightarrow>
                                        if c' = CHR '','' then
                                          parseMembers n d (acc @ [(k, v)]) (skipSpace r4)
                                        else if c' = CHR ''}'' then
                                          Some (JObject (acc @ [(k, v)]), r4)
                                        else None)))))"

text \<open>
  \<open>Decode\<close> on a stream that delivers \<open>text\<close> and then ends (\<open>readErr = False\<close>) or
  fails (\<open>readErr = True\<close>): the first value of the stream; what follows it is left
  unread. A number, string or literal ends only with the byte after it, so at the very
  end of a failing stream it is not returned.
\<close>

definition jsonValue :: "string \<Rightarrow> bool \<Rightarrow> json option" where
  "jsonValue text readErr =
     (let s = skipSpace text in
      case parseValue (2 * length s + 2) 0 s of
        None \<Rightarrow> None
      | Some (v, r) \<Rightarrow>
          (case v of
             JArray _ \<Rightarrow> Some v
           | JObject _ \<Rightarrow> Some v
           | _ \<Rightarrow> if r = [] \<and> readErr then None else Some v))"

subsection \<open>Storing a value in the program's structs\<close>

text \<open>
  A key of a JSON object names a struct field when the two are equal up to case.
  \<open>foldName\<close> is the folded form that is compared: ASCII letters in upper case, and
  the two characters outside ASCII that fold to ASCII letters, U+017F (to S) and
  U+212A (to K). Other bytes outside ASCII are kept; their folded form is never ASCII,
  and all field names here are.
\<close>

definition toUpper :: "char \<Rightarrow> char" where
  "toUpper c =
     (case map_of (zip ''abcdefghijklmnopqrstuvwxyz'' ''ABCDEFGHIJKLMNOPQRSTUVWXYZ'') c of
        None \<Rightarrow> c
      | Some u \<Rightarrow> u)"

function foldName :: "string \<Rightarrow> string" where
  "foldName [] = []"
| "foldName (c # cs) =
     (if c = CHR 0xC5 \<and> take 1 cs = [CHR 0xBF] then CHR ''S'' # foldName (drop 1 cs)
      else if c = CHR 0xE2 \<and> take 2 cs = [CHR 0x84, CHR 0xAA] then CHR ''K'' # foldName (drop 2 cs)
      else toUpper c # foldName cs)"
  by pat_completeness auto
termination
  by (relation "measure length") auto

definition keyIs :: "string \<Rightarrow> string \<Rightarrow> bool" where
  "keyIs field key = (foldName key = foldName field)"

text \<open>
  A slice: the elements of its underlying array and its length. Decoding an array
  into a slice stores element \<open>i\<close> in place \<open>i\<close> of the underlying array, over what an
  earlier array of the same text (a repeated key) left there.
\<close>

record 'a slice =
  sliceArray :: "'a list"
  sliceLen :: nat

text \<open>The structs \<open>body\<close> and \<open>metadata\<close> (microsoft.go, lines 23-38).\<close>

record item =
  Item :: string

record batchrsp =
  Items :: "item slice"

record body =
  Batchrsp :: batchrsp

record landscapeImage =
  Asset :: string

record ad =
  LandscapeImage :: landscapeImage

record metadata =
  Ad :: ad

definition zeroBody :: body where
  "zeroBody = \<lparr>Batchrsp = \<lparr>Items = \<lparr>sliceArray = [], sliceLen = 0\<rparr>\<rparr>\<rparr>"

definition zeroMetadata :: metadata where
  "zeroMetadata = \<lparr>Ad = \<lparr>LandscapeImage = \<lparr>Asset = []\<rparr>\<rparr>\<rparr>"

text \<open>A string field takes a JSON string; \<open>null\<close> leaves it as it is.\<close>

definition storeString :: "string \<Rightarrow> json \<Rightarrow> string option" where
  "storeString cur v = (case v of JString s \<Rightarrow> Some s | JNull \<Rightarrow> Some cur | _ \<Rightarrow> None)"

text \<open>
  A struct takes a JSON object, member by member in the order of the text (\<open>field\<close>
  stores one member; members that name no field are skipped); \<open>null\<close> leaves it as it is.
\<close>

fun storeMembers ::
  "(string \<Rightarrow> json \<Rightarrow> 's \<Rightarrow> 's option) \<Rightarrow> (string \<times> json) list \<Rightarrow> 's \<Rightarrow> 's option" where
  "storeMembers field [] cur = Some cur"
| "storeMembers field ((k, v) # ms) cur =
     (case field k v cur of None \<Rightarrow> None | Some cur' \<Rightarrow> storeMembers field ms cur')"

definition storeStruct ::
  "(string \<Rightarrow> json \<Rightarrow> 's \<Rightarrow> 's option) \<Rightarrow> 's \<Rightarrow> json \<Rightarrow> 's option" where
  "storeStruct field cur v =
     (case v of JObject ms \<Rightarrow> storeMembers field ms cur | JNull \<Rightarrow> Some cur | _ \<Rightarrow> None)"

text \<open>A slice takes a JSON array; \<open>null\<close> and the empty array make it empty.\<close>

fun storeElements ::
  "('a \<Rightarrow> json \<Rightarrow> 'a option) \<Rightarrow> 'a \<Rightarrow> 'a list \<Rightarrow> json list \<Rightarrow> 'a list option" where
  "storeElements elem zero arr [] = Some []"
| "storeElements elem zero arr (j # js) =
     (case elem (case arr of [] \<Rightarrow> zero | x # _ \<Rightarrow> x) j of
        None \<Rightarrow> None
      | Some e \<Rightarrow>
          (case storeElements elem zero (tl arr) js of
             None \<Rightarrow> None
           | Some es \<Rightarrow> Some (e # es)))"

definition storeSlice ::
  "('a \<Rightarrow> json \<Rightarrow> 'a option) \<Rightarrow> 'a \<Rightarrow> 'a slice \<Rightarrow> json \<Rightarrow> 'a slice option" where
  "storeSlice elem zero cur v =
     (case v of
        JNull \<Rightarrow> Some \<lparr>sliceArray = [], sliceLen = 0\<rparr>
      | JArray js \<Rightarrow>
          if js = [] then Some \<lparr>sliceArray = [], sliceLen = 0\<rparr>
          else (case storeElements elem zero (sliceArray cur) js of
                  None \<Rightarrow> None
                | Some es \<Rightarrow>
                    Some \<lparr>sliceArray = es @ drop (length es) (sliceArray cur),
                          sliceLen = length es\<rparr>)
      | _ \<Rightarrow> None)"

definition storeItem :: "item \<Rightarrow> json \<Rightarrow> item option" where
  "storeItem =
     storeStruct (\<lambda>k v cur.
       if keyIs ''Item'' k then map_option (\<lambda>s. cur\<lparr>Item := s\<rparr>) (storeString (Item cur) v)
       else Some cur)"

definition storeBatchrsp :: "batchrsp \<Rightarrow> json \<Rightarrow> batchrsp option" where
  "storeBatchrsp =
     storeStruct (\<lambda>k v cur.
       if keyIs ''Items'' k
       then map_option (\<lambda>s. cur\<lparr>Items := s\<rparr>) (storeSlice storeItem \<lparr>Item = []\<rparr> (Items cur) v)
       else Some cur)"

definition storeBody :: "body \<Rightarrow> json \<Rightarrow> body option" where
  "storeBody =
     storeStruct (\<lambda>k v cur.
       if keyIs ''Batchrsp'' k
       then map_option (\<lambda>b. cur\<lparr>Batchrsp := b\<rparr>) (storeBatchrsp (Batchrsp cur) v)
       else Some cur)"

definition storeLandscapeImage :: "landscapeImage \<Rightarrow> json \<Rightarrow> landscapeImage option" where
  "storeLandscapeImage =
     storeStruct (\<lambda>k v cur.
       if keyIs ''Asset'' k then map_option (\<lambda>s. cur\<lparr>Asset := s\<rparr>) (storeString (Asset cur) v)
       else Some cur)"

definition storeAd :: "ad \<Rightarrow> json \<Rightarrow> ad option" where
  "storeAd =
     storeStruct (\<lambda>k v cur.
       if keyIs ''LandscapeImage'' k
       then map_option (\<lambda>l. cur\<lparr>LandscapeImage := l\<rparr>)
              (storeLandscapeImage (LandscapeImage cur) v)
       else Some cur)"

definition storeMetadata :: "metadata \<Rightarrow> json \<Rightarrow> metadata option" where
  "storeMetadata =
     storeStruct (\<lambda>k v cur.
       if keyIs ''Ad'' k then map_option (\<lambda>x. cur\<lparr>Ad := x\<rparr>) (storeAd (Ad cur) v)
       else Some cur)"

text \<open>The two \<open>Decode\<close> calls of \<open>Get\<close> (lines 77-80 and 90-93), each into a fresh
  variable. The item is read from a string, which never fails to deliver.\<close>

definition decodeBody :: "response \<Rightarrow> body option" where
  "decodeBody res =
     (case jsonValue (Body res) (BodyErr res) of
        None \<Rightarrow> None
      | Some v \<Rightarrow> storeBody zeroBody v)"

definition decodeMetadata :: "string \<Rightarrow> metadata option" where
  "decodeMetadata item' =
     (case jsonValue item' False of
        None \<Rightarrow> None
      | Some v \<Rightarrow> storeMetadata zeroMetadata v)"

section \<open>Get (api/microsoft.go, lines 40-96)\<close>

text \<open>\<open>fmt.Sprintf(apiUrl, country, locale)\<close> (lines 12 and 61).\<close>

definition apiUrl :: "string \<Rightarrow> string \<Rightarrow> string" where
  "apiUrl country locale =
     ''https://fd.api.iris.microsoft.com/v4/api/selection?&placement=88000820&bcnt=1&country=''
     @ country @ ''&locale='' @ locale @ ''&fmt=json''"

text \<open>Lines 45-50: the locale from \<open>LANG\<close>.\<close>

definition parseLocale :: "string \<Rightarrow> error + string" where
  "parseLocale lang =
     (let l = Split lang (CHR ''.'')
      in if length l \<noteq> 0 then Inr (ReplaceAll (l ! 0) (CHR ''_'') (CHR ''-''))
         else Inl ErrParseLocale)"

text \<open>Lines 52-57: the country from the locale.\<close>

definition parseCountry :: "string \<Rightarrow> error + string" where
  "parseCountry locale =
     (let c = Split locale (CHR ''-'')
      in if length c \<noteq> 0 then Inr (c ! (length c - 1))
         else Inl ErrParseCountry)"

text \<open>\<open>os.Getenv("LANG")\<close> is the \<open>LANG\<close> of the world: empty when the variable is not set.\<close>

definition Get :: "world \<Rightarrow> error + string" where
  "Get w =
     (case parseLocale (LANG w) of
        Inl e \<Rightarrow> Inl e
      | Inr locale \<Rightarrow>
          (case parseCountry locale of
             Inl e \<Rightarrow> Inl e
           | Inr country \<Rightarrow>
               (case httpGet w (apiUrl country locale) of
                  None \<Rightarrow> Inl ErrApiRequest
                | Some res \<Rightarrow>
                    if StatusCode res \<noteq> 200 then Inl (ErrApiStatus (StatusCode res))
                    else (case decodeBody res of
                            None \<Rightarrow> Inl ErrDecodeBody
                          | Some body' \<Rightarrow>
                              if sliceLen (Items (Batchrsp body')) = 0 then Inl ErrNoImages
                              else (case decodeMetadata
                                           (Item (sliceArray (Items (Batchrsp body')) ! 0)) of
                                      None \<Rightarrow> Inl ErrDecodeMetadata
                                    | Some metadata' \<Rightarrow>
                                        Inr (Asset (LandscapeImage (Ad metadata'))))))))"

section \<open>newImage (main.go, lines 170-221)\<close>

text \<open>\<open>os.Stat(a.dir)\<close>: an error, or whether \<open>a.dir\<close> is a directory.\<close>

definition osStatDir :: "world \<Rightarrow> bool option" where
  "osStatDir w = (case dirKind w of Absent \<Rightarrow> None | NotADir \<Rightarrow> Some False | Dir \<Rightarrow> Some True)"

text \<open>\<open>os.Stat(path)\<close>: the file, \<open>os.ErrNotExist\<close>, or another error (no search
  permission, or a path through something that is no directory).\<close>

datatype statError = ErrNotExist | ErrOther

definition osStat :: "world \<Rightarrow> string \<Rightarrow> statError + fileInfo" where
  "osStat w p =
     (case dirKind w of
        Absent \<Rightarrow> Inl ErrNotExist
      | NotADir \<Rightarrow> Inl ErrOther
      | Dir \<Rightarrow>
          if \<not> dirSearchable w then Inl ErrOther
          else (case lookupFile w (pathBase p) of None \<Rightarrow> Inl ErrNotExist | Some f \<Rightarrow> Inr f))"

text \<open>\<open>os.Create(path)\<close>: a new empty file, or an existing file truncated.\<close>

definition osCreate :: "world \<Rightarrow> string \<Rightarrow> world option" where
  "osCreate w p =
     (if dirKind w = Dir \<and> dirSearchable w
      then (case lookupFile w (pathBase p) of
              None \<Rightarrow>
                if dirWritable w
                then Some (w\<lparr>files := files w @
                       [\<lparr>Name = pathBase p, ModTime = now w, contents = [], immutable = False\<rparr>]\<rparr>)
                else None
            | Some f \<Rightarrow>
                if immutable f then None
                else Some (w\<lparr>files := map (\<lambda>g. if Name g = pathBase p
                                               then g\<lparr>contents := [], ModTime := now w\<rparr> else g)
                                          (files w)\<rparr>))
      else None)"

text \<open>
  \<open>io.Copy(file, res.Body)\<close> into the file at \<open>p\<close>: the bytes of the body that
  the file system accepts are appended to the file; the result is their number and
  whether the copy failed (a write refused, or a body that ends in an error).
\<close>

definition acceptedBytes :: "world \<Rightarrow> response \<Rightarrow> string" where
  "acceptedBytes w res =
     (case writeLimit w of None \<Rightarrow> Body res | Some l \<Rightarrow> take l (Body res))"

definition ioCopy :: "world \<Rightarrow> string \<Rightarrow> response \<Rightarrow> (nat \<times> bool) \<times> world" where
  "ioCopy w p res =
     (let accepted = acceptedBytes w res;
          failed = (length accepted < length (Body res) \<or> BodyErr res)
      in ((length accepted, failed),
          w\<lparr>files := map (\<lambda>g. if Name g = pathBase p
                               then g\<lparr>contents := contents g @ accepted, ModTime := now w\<rparr>
                               else g)
                          (files w)\<rparr>))"

text \<open>
  The result is what the Go function returns, \<open>(string, error)\<close>, and the world after
  the call. The number of bytes \<open>n\<close> that \<open>io.Copy\<close> returns goes to the log only.
\<close>

definition newImage :: "Application \<Rightarrow> world \<Rightarrow> (error + string) \<times> world" where
  "newImage a w =
     (case Get w of
        Inl e \<Rightarrow> (Inl (ErrGetImageUrl e), w)
      | Inr url \<Rightarrow>
          (case httpGet w url of
             None \<Rightarrow> (Inl ErrFetchImage, w)
           | Some res \<Rightarrow>
               if StatusCode res \<noteq> 200 then (Inl (ErrImageStatus (StatusCode res)), w)
               else (case osStatDir w of
                       None \<Rightarrow> (Inl ErrStatImageDir, w)
                     | Some isDir \<Rightarrow>
                         if \<not> isDir then (Inl ErrNotADirectory, w)
                         else let path = pathJoin [dir a, imagePrefix @ pathBase url]
                              in if osStat w path \<noteq> Inl ErrNotExist then (Inl ErrImageExists, w)
                                 else (case osCreate w path of
                                         None \<Rightarrow> (Inl ErrCreateImageFile, w)
                                       | Some w1 \<Rightarrow>
                                           (case ioCopy w1 path res of
                                              ((n, failed), w2) \<Rightarrow>
                                                if failed then (Inl ErrWriteImageFile, w2)
                                                else (Inr path, w2))))))"

section \<open>Notions of the specification\<close>

text \<open>The managed files of the directory: those whose name starts with the prefix.\<close>

definition managed :: "world \<Rightarrow> fileInfo list" where
  "managed w = filter (\<lambda>f. HasPrefix (Name f) imagePrefix) (files w)"

text \<open>A name a directory entry can have.\<close>

definition validName :: "string \<Rightarrow> bool" where
  "validName n = (n \<noteq> [] \<and> n \<noteq> ''.'' \<and> n \<noteq> ''..'' \<and> CHR ''/'' \<notin> set n)"

text \<open>
  A directory as a file system holds it: no two entries of the same name, every name
  a valid one, and no more entries than a Go slice has room for.
\<close>

definition wfDir :: "world \<Rightarrow> bool" where
  "wfDir w = (distinct (map Name (files w)) \<and> list_all (\<lambda>f. validName (Name f)) (files w)
     \<and> length (files w) < 2 ^ 63)"

subsection \<open>The texts of the metadata service\<close>

text \<open>
  The texts are described here on their own, by the grammar of JSON and not by the
  functions of the decoder above. \<open>dq\<close> puts a text in double quotes.
\<close>

definition dq :: "string \<Rightarrow> string" where
  "dq s = CHR 0x22 # s @ [CHR 0x22]"

text \<open>White space between the tokens of a text: spaces, tabs, line feeds and carriage
  returns.\<close>

definition whiteSpace :: "string \<Rightarrow> bool" where
  "whiteSpace s = list_all (\<lambda>c. c \<in> set [CHR '' '', CHR 0x09, CHR 0x0A, CHR 0x0D]) s"

text \<open>
  The characters of a text are Unicode code points, as natural numbers; the surrogates
  are no characters. \<open>utf8\<close> is the UTF-8 encoding of a character, one to four bytes,
  and \<open>utf8s\<close> the bytes of a sequence of characters.
\<close>

definition scalar :: "nat \<Rightarrow> bool" where
  "scalar r = (r < 0xD800 \<or> 0xE000 \<le> r \<and> r < 0x110000)"

definition utf8 :: "nat \<Rightarrow> string" where
  "utf8 r =
     (let tail = (\<lambda>k. char_of (0x80 + r div 64 ^ k mod 64)) in
      if r < 0x80 then [char_of r]
      else if r < 0x800 then [char_of (0xC0 + r div 64), tail 0]
      else if r < 0x10000 then [char_of (0xE0 + r div 64 ^ 2), tail 1, tail 0]
      else [char_of (0xF0 + r div 64 ^ 3), tail 2, tail 1, tail 0])"

definition utf8s :: "nat list \<Rightarrow> string" where
  "utf8s rs = concat (map utf8 rs)"

text \<open>The hexadecimal digits, in either case, of a number below 16; and the escapes
  \<open>\uXXXX\<close> of a number below \<open>0x10000\<close>, with each digit in either case.\<close>

definition hexDigits :: "nat \<Rightarrow> string" where
  "hexDigits k = [''0123456789abcdef'' ! k, ''0123456789ABCDEF'' ! k]"

definition uEscapes :: "nat \<Rightarrow> string list" where
  "uEscapes n =
     concat (map (\<lambda>h1. concat (map (\<lambda>h2. concat (map (\<lambda>h3. map (\<lambda>h4.
         [CHR 0x5C, CHR ''u'', h1, h2, h3, h4])
       (hexDigits (n mod 16))) (hexDigits (n div 16 mod 16))))
       (hexDigits (n div 256 mod 16)))) (hexDigits (n div 4096)))"

text \<open>The two-character escapes: the character after the backslash, and the character
  the escape stands for.\<close>

definition shortEscapes :: "(char \<times> char) list" where
  "shortEscapes =
     [(CHR 0x22, CHR 0x22), (CHR 0x5C, CHR 0x5C), (CHR ''/'', CHR ''/''),
      (CHR ''b'', CHR 0x08), (CHR ''f'', CHR 0x0C), (CHR ''n'', CHR 0x0A),
      (CHR ''r'', CHR 0x0D), (CHR ''t'', CHR 0x09)]"

text \<open>
  All the ways to write one character inside a JSON string literal: its UTF-8 bytes,
  unless it is a control character, the double quote or the backslash; a two-character
  escape, where there is one; \<open>\uXXXX\<close> for a character below \<open>0x10000\<close>; and a
  pair of escapes, a high and a low surrogate, for a character from \<open>0x10000\<close> on.
\<close>

definition charTexts :: "nat \<Rightarrow> string list" where
  "charTexts r =
     (if 0x20 \<le> r \<and> r \<noteq> 0x22 \<and> r \<noteq> 0x5C then [utf8 r] else [])
     @ map (\<lambda>(e, x). [CHR 0x5C, e]) (filter (\<lambda>(e, x). of_char x = r) shortEscapes)
     @ (if r < 0x10000 then uEscapes r
        else concat (map (\<lambda>hi. map (\<lambda>lo. hi @ lo)
                                    (uEscapes (0xDC00 + (r - 0x10000) mod 1024)))
                         (uEscapes (0xD800 + (r - 0x10000) div 1024))))"

text \<open>
  \<open>spells ps rs\<close>: the pieces \<open>ps\<close> write the characters \<open>rs\<close>, one piece for each
  character. \<open>literal ps\<close> is the string literal made of the pieces.
\<close>

definition spells :: "string list \<Rightarrow> nat list \<Rightarrow> bool" where
  "spells ps rs = (list_all2 (\<lambda>p r. p \<in> set (charTexts r)) ps rs \<and> list_all scalar rs)"

definition literal :: "string list \<Rightarrow> string" where
  "literal ps = CHR 0x22 # concat ps @ [CHR 0x22]"

text \<open>
  The text of an item, \<open>{"ad":{"landscapeImage":{"asset":U}}}\<close>, with the string
  literal for \<open>U\<close> made of the pieces \<open>pU\<close> and the white space \<open>sp\<close> between any two
  tokens.
\<close>

definition itemText :: "string \<Rightarrow> string list \<Rightarrow> string" where
  "itemText sp pU =
     ''{'' @ sp @ dq ''ad'' @ sp @ '':'' @ sp @
       ''{'' @ sp @ dq ''landscapeImage'' @ sp @ '':'' @ sp @
         ''{'' @ sp @ dq ''asset'' @ sp @ '':'' @ sp @ literal pU @ sp @ ''}''
       @ sp @ ''}''
     @ sp @ ''}''"

text \<open>
  The text of an envelope, \<open>{"batchrsp":{"items":[{"item":I1},{"item":I2},...]}}\<close>,
  with the string literals for the items made of the pieces \<open>ps\<close>, one list of pieces
  for each item.
\<close>

definition itemObject :: "string \<Rightarrow> string list \<Rightarrow> string" where
  "itemObject sp p = ''{'' @ sp @ dq ''item'' @ sp @ '':'' @ sp @ literal p @ sp @ ''}''"

fun elementsText :: "string \<Rightarrow> string list \<Rightarrow> string" where
  "elementsText sp [] = []"
| "elementsText sp [e] = e"
| "elementsText sp (e # e' # es) = e @ sp @ '','' @ sp @ elementsText sp (e' # es)"

definition envelopeText :: "string \<Rightarrow> string list list \<Rightarrow> string" where
  "envelopeText sp ps =
     ''{'' @ sp @ dq ''batchrsp'' @ sp @ '':'' @ sp @
       ''{'' @ sp @ dq ''items'' @ sp @ '':'' @ sp @
         ''['' @ sp @ elementsText sp (map (itemObject sp) ps) @ sp @ '']''
       @ sp @ ''}''
     @ sp @ ''}''"

section \<open>Example states\<close>

definition sampleFiles :: "fileInfo list" where
  "sampleFiles =
     [\<lparr>Name = ''gnome-spotlight_c.jpg'', ModTime = 30, contents = ''cc'', immutable = False\<rparr>,
      \<lparr>Name = ''gnome-spotlight_a.jpg'', ModTime = 40, contents = ''aa'', immutable = False\<rparr>,
      \<lparr>Name = ''holiday.jpg'', ModTime = 5, contents = ''hh'', immutable = False\<rparr>,
      \<lparr>Name = ''gnome-spotlight_d.jpg'', ModTime = 10, contents = ''dd'', immutable = False\<rparr>,
      \<lparr>Name = ''gnome-spotlight_b.jpg'', ModTime = 20, contents = ''bb'', immutable = False\<rparr>]"

text \<open>The capacity of a slice that \<open>append\<close> has filled to \<open>n\<close> elements, when a full
  slice grows to twice its capacity (as the Go runtime does for small slices).\<close>

primrec appendCap :: "nat \<Rightarrow> nat" where
  "appendCap 0 = 0"
| "appendCap (Suc n) =
     (if Suc n \<le> appendCap n then appendCap n
      else if appendCap n = 0 then 1
      else 2 * appendCap n)"

definition sampleWorld :: world where
  "sampleWorld =
     \<lparr>LANG = ''en_US.UTF-8'', httpGet = (\<lambda>u. None), dirKind = Dir, dirReadable = True,
      dirSearchable = True, dirWritable = True, files = sampleFiles, writeLimit = None,
      now = 50, spareCap = (\<lambda>n. appendCap n - n), dconfExec = (\<lambda>k v. ExecOk),
      dconfDb = Map.empty, dconfCalls = []\<rparr>"

text \<open>Three managed files, in a slice of capacity four.\<close>

definition threeManagedWorld :: world where
  "threeManagedWorld = sampleWorld\<lparr>files := tl sampleFiles\<rparr>"

definition sampleApp :: Application where
  "sampleApp = \<lparr>dir = ''/home/u/.local/share/backgrounds'', preserve = 3\<rparr>"

text \<open>
  The texts of a metadata response: an item as the service sends it, the envelope that
  holds the item as a JSON string, and an envelope with no items. \<open>jsonQuote\<close> writes
  a text as a JSON string literal.
\<close>

definition jsonQuote :: "string \<Rightarrow> string" where
  "jsonQuote s =
     CHR 0x22 #
       concat (map (\<lambda>c. if c = CHR 0x22 \<or> c = CHR 0x5C then [CHR 0x5C, c] else [c]) s)
       @ [CHR 0x22]"

definition sampleItem :: string where
  "sampleItem =
     ''{'' @ dq ''ad'' @ '':{'' @ dq ''landscapeImage'' @ '':{'' @ dq ''asset'' @ '':''
       @ dq ''http://x/img.jpg'' @ ''}}}''"

definition sampleEnvelope :: string where
  "sampleEnvelope =
     ''{'' @ dq ''batchrsp'' @ '':{'' @ dq ''items'' @ '':[{'' @ dq ''item'' @ '':''
       @ jsonQuote sampleItem @ ''}]}}''"

definition emptyEnvelope :: string where
  "emptyEnvelope = ''{'' @ dq ''batchrsp'' @ '':{'' @ dq ''items'' @ '':[]}}''"

text \<open>
  Ways to write a string: every character as it is; with the double quote and the
  backslash escaped; and the URL \<open>http://x/img.jpg?a=1&b=2\<close> with escaped slashes and
  the \<open>&\<close> as \<open>\u0026\<close>.
\<close>

definition plain :: "string \<Rightarrow> string list" where
  "plain u = map (\<lambda>c. [c]) u"

definition quoted :: "string \<Rightarrow> string list" where
  "quoted u = map (\<lambda>c. if c = CHR 0x22 \<or> c = CHR 0x5C then [CHR 0x5C, c] else [c]) u"

definition escapedUrl :: "string list" where
  "escapedUrl =
     plain ''http:'' @ [[CHR 0x5C, CHR ''/''], [CHR 0x5C, CHR ''/'']] @ plain ''x''
     @ [[CHR 0x5C, CHR ''/'']] @ plain ''img.jpg?a=1''
     @ [[CHR 0x5C, CHR ''u'', CHR ''0'', CHR ''0'', CHR ''2'', CHR ''6'']] @ plain ''b=2''"

text \<open>An envelope with two items, written with white space; the second item is no JSON.\<close>

definition escapedEnvelope :: string where
  "escapedEnvelope =
     [CHR 0x0A] @ envelopeText [CHR '' '', CHR 0x0A]
        [quoted (itemText [CHR 0x09] escapedUrl), plain ''second'']
     @ ''trailing text''"

definition escapedApiWorld :: world where
  "escapedApiWorld =
     sampleWorld\<lparr>httpGet := (\<lambda>u. if u = apiUrl ''US'' ''en-US''
                                then Some \<lparr>StatusCode = 200, Body = escapedEnvelope, BodyErr = True\<rparr>
                                else None)\<rparr>"

text \<open>Servers that answer the request at \<open>api\<close> with an envelope and the request for
  the image with \<open>imgRes\<close>.\<close>

definition sampleHttp ::
  "string \<Rightarrow> string \<Rightarrow> response option \<Rightarrow> string \<Rightarrow> response option" where
  "sampleHttp api envelope imgRes u =
     (if u = api then Some \<lparr>StatusCode = 200, Body = envelope, BodyErr = False\<rparr>
      else if u = ''http://x/img.jpg'' then imgRes
      else None)"

definition usApi :: string where
  "usApi = apiUrl ''US'' ''en-US''"

definition jpeg :: "string \<Rightarrow> response option" where
  "jpeg bytes = Some \<lparr>StatusCode = 200, Body = bytes, BodyErr = False\<rparr>"

definition apiWorld :: world where
  "apiWorld = sampleWorld\<lparr>httpGet := sampleHttp usApi sampleEnvelope (jpeg ''JPEG'')\<rparr>"

definition apiWorld2 :: world where
  "apiWorld2 = sampleWorld\<lparr>httpGet := sampleHttp usApi sampleEnvelope (jpeg ''JPEG-2'')\<rparr>"

definition emptyApiWorld :: world where
  "emptyApiWorld = sampleWorld\<lparr>httpGet := sampleHttp usApi emptyEnvelope (jpeg ''JPEG'')\<rparr>"

text \<open>\<open>LANG\<close> is not set, and the service answers the request without locale and country.\<close>

definition noLangWorld :: world where
  "noLangWorld =
     sampleWorld\<lparr>LANG := [], httpGet := sampleHttp (apiUrl [] []) sampleEnvelope (jpeg ''JPEG'')\<rparr>"

text \<open>The directory already holds the image of the URL.\<close>

definition oldImage :: fileInfo where
  "oldImage =
     \<lparr>Name = ''gnome-spotlight_img.jpg'', ModTime = 45, contents = ''OLD'', immutable = False\<rparr>"

definition existingWorld :: world where
  "existingWorld = apiWorld\<lparr>files := sampleFiles @ [oldImage]\<rparr>"

text \<open>The same, with a server that does not have the image.\<close>

definition existing404World :: world where
  "existing404World =
     existingWorld\<lparr>httpGet := sampleHttp usApi sampleEnvelope
                      (Some \<lparr>StatusCode = 404, Body = [], BodyErr = False\<rparr>)\<rparr>"

text \<open>The file system accepts two bytes of a new file; and the state a failed run
  leaves behind, with a server that is out of service on the next run.\<close>

definition limitedWorld :: world where
  "limitedWorld = apiWorld\<lparr>writeLimit := Some 2\<rparr>"

definition partialImage :: fileInfo where
  "partialImage =
     \<lparr>Name = ''gnome-spotlight_img.jpg'', ModTime = 50, contents = ''JP'', immutable = False\<rparr>"

definition afterFailedWorld :: world where
  "afterFailedWorld = limitedWorld\<lparr>files := sampleFiles @ [partialImage]\<rparr>"

definition afterFailed503World :: world where
  "afterFailed503World =
     afterFailedWorld\<lparr>httpGet := sampleHttp usApi sampleEnvelope
                         (Some \<lparr>StatusCode = 503, Body = [], BodyErr = False\<rparr>)\<rparr>"

text \<open>\<open>dconf write\<close> fails for the second key.\<close>

definition dconfFailWorld :: world where
  "dconfFailWorld =
     sampleWorld\<lparr>dconfExec := (\<lambda>k v. if k = ''/org/gnome/desktop/background/picture-uri-dark''
                                   then ExitError ''error: permission denied'' else ExecOk)\<rparr>"

definition samplePath :: string where
  "samplePath = ''/home/u/.local/share/backgrounds/gnome-spotlight_img.jpg''"

section \<open>Paths\<close>

lemma Split_not_Nil: "Split s c \<noteq> []"
  by (induction s) (auto split: list.splits)

lemma Split_no_sep: "c \<notin> set s \<Longrightarrow> Split s c = [s]"
  by (induction s) auto

lemma Split_append_sep: "Split (a @ c # b) c = Split a c @ Split b c"
  by (induction a) (auto split: list.splits simp: Split_not_Nil)

lemma joinSlash_snoc:
  "joinSlash (out @ [n]) = (if out = [] then n else joinSlash out @ CHR ''/'' # n)"
  by (induction out rule: joinSlash.induct) auto

lemma pathBase_last_elem:
  assumes "n \<noteq> []" "CHR ''/'' \<notin> set n" "x = [] \<or> last x = CHR ''/''"
  shows "pathBase (x @ n) = n"
proof -
  have 1: "dropWhile (\<lambda>c. c = CHR ''/'') (rev n @ rev x) = rev n @ rev x"
    using assms(1,2) by (cases "rev n") (auto simp: )
  have 2: "takeWhile (\<lambda>c. c \<noteq> CHR ''/'') (rev n @ rev x) = rev n"
  proof (cases "x = []")
    case True
    then show ?thesis using assms(2) by (auto simp: takeWhile_eq_all_conv)
  next
    case False
    then have "hd (rev x) = CHR ''/''" using assms(3) by (simp add: hd_rev)
    moreover have "rev x \<noteq> []" using False by simp
    ultimately obtain t where "rev x = CHR ''/'' # t" by (cases "rev x") auto
    then show ?thesis using assms(2) by (subst takeWhile_append2) auto
  qed
  show ?thesis using assms(1) by (simp add: pathBase_def 1 2)
qed

lemma pathClean_last_elem:
  assumes "validName n"
  shows "\<exists>x. pathClean (d @ CHR ''/'' # n) = x @ n \<and> (x = [] \<or> last x = CHR ''/'')"
proof -
  define r where "r = (hd (d @ CHR ''/'' # n) = CHR ''/'')"
  define out where "out = foldl (cleanStep r) [] (Split d (CHR ''/''))"
  have sp: "Split (d @ CHR ''/'' # n) (CHR ''/'') = Split d (CHR ''/'') @ [n]"
    using assms by (simp add: Split_append_sep Split_no_sep validName_def)
  have fo: "foldl (cleanStep r) [] (Split (d @ CHR ''/'' # n) (CHR ''/'')) = out @ [n]"
    using assms by (simp add: sp out_def cleanStep_def validName_def)
  have "pathClean (d @ CHR ''/'' # n) = (if r then ''/'' else []) @ joinSlash (out @ [n])"
    using assms by (simp add: pathClean_def fo r_def [symmetric] joinSlash_snoc validName_def Let_def)
  then show ?thesis
    by (cases "out = []") (auto simp: joinSlash_snoc intro: exI [of _ "(if r then ''/'' else []) @ joinSlash out @ ''/''"])
qed

lemma pathClean_single: "validName n \<Longrightarrow> pathClean n = n"
  by (cases n) (auto simp: pathClean_def validName_def Split_no_sep cleanStep_def Let_def)

lemma pathBase_pathJoin: 
  assumes "validName n" shows "pathBase (pathJoin [d, n]) = n"
proof (cases "d = []")
  case True
  then have "pathJoin [d, n] = n" using assms by (simp add: pathJoin_def pathClean_single validName_def)
  then show ?thesis using assms pathBase_last_elem [of n "[]"] by (simp add: validName_def)
next
  case False
  then have "pathJoin [d, n] = pathClean (d @ CHR ''/'' # n)" by (simp add: pathJoin_def)
  moreover obtain x where "pathClean (d @ CHR ''/'' # n) = x @ n" "x = [] \<or> last x = CHR ''/''"
    using pathClean_last_elem [OF assms, of d] by blast
  moreover have "pathBase (x @ n) = n"
    using pathBase_last_elem [of n x] assms calculation(3) by (simp add: validName_def)
  ultimately show ?thesis by simp
qed

section \<open>Properties of cleanImages\<close>

lemma find_distinct_key:
  "distinct (map g xs) \<Longrightarrow> x \<in> set xs \<Longrightarrow> find (\<lambda>y. g y = g x) xs = Some x"
  by (induction xs) (auto simp: image_iff)

lemma lookupFile_self:
  "distinct (map Name (files w)) \<Longrightarrow> f \<in> set (files w) \<Longrightarrow> lookupFile w (Name f) = Some f"
  by (simp add: lookupFile_def find_distinct_key)

lemma managedInfos_Inr:
  "managedInfos w es acc = Inr fs \<Longrightarrow> distinct (map Name (files w)) \<Longrightarrow> set es \<subseteq> set (files w)
   \<Longrightarrow> fs = acc @ filter (\<lambda>f. HasPrefix (Name f) imagePrefix) es"
proof (induction es arbitrary: acc)
  case Nil
  then show ?case by simp
next
  case (Cons e es)
  show ?case
  proof (cases "HasPrefix (Name e) imagePrefix")
    case True
    with Cons.prems have "managedInfos w es (acc @ [e]) = Inr fs"
      by (auto simp: entryInfo_def lookupFile_self split: if_splits option.splits)
    then have "fs = (acc @ [e]) @ filter (\<lambda>f. HasPrefix (Name f) imagePrefix) es"
      using Cons.prems by (intro Cons.IH) auto
    with True show ?thesis by simp
  next
    case False
    with Cons.prems have "managedInfos w es acc = Inr fs" by simp
    then have "fs = acc @ filter (\<lambda>f. HasPrefix (Name f) imagePrefix) es"
      using Cons.prems by (intro Cons.IH) auto
    with False show ?thesis by simp
  qed
qed

lemma osRemove_Some:
  "osRemove w p = Some w' \<Longrightarrow> w' = w\<lparr>files := filter (\<lambda>g. Name g \<noteq> pathBase p) (files w)\<rparr>"
  by (auto simp: osRemove_def split: if_splits option.splits)

lemma deleteImages_None:
  "deleteImages d ds w = (None, w') \<Longrightarrow> list_all (\<lambda>f. validName (Name f)) ds
   \<Longrightarrow> w' = w\<lparr>files := filter (\<lambda>g. Name g \<notin> Name ` set ds) (files w)\<rparr>"
proof (induction ds arbitrary: w)
  case Nil
  then show ?case by simp
next
  case (Cons f fs)
  from Cons.prems obtain w1 where r: "osRemove w (pathJoin [d, Name f]) = Some w1"
    and rest: "deleteImages d fs w1 = (None, w')"
    by (auto split: option.splits)
  have w1: "w1 = w\<lparr>files := filter (\<lambda>g. Name g \<noteq> Name f) (files w)\<rparr>"
    using osRemove_Some [OF r] Cons.prems(2) by (simp add: pathBase_pathJoin)
  have "w' = w1\<lparr>files := filter (\<lambda>g. Name g \<notin> Name ` set fs) (files w1)\<rparr>"
    using Cons.IH [OF rest] Cons.prems(2) by simp
  then show ?case
    by (simp add: w1 conj_commute)
qed

lemma goInt_in_range: "- (2 ^ 63) \<le> i \<Longrightarrow> i < 2 ^ 63 \<Longrightarrow> goInt i = i"
  by (simp add: goInt_def sint_sbintrunc' signed_take_bit_int_eq_self)

lemma goInt_wraps: "2 ^ 63 \<le> i \<Longrightarrow> i < 2 ^ 64 \<Longrightarrow> goInt i < 0"
proof -
  assume a: "2 ^ 63 \<le> i" "i < 2 ^ 64"
  have "signed_take_bit 63 i \<le> i - 2 ^ Suc 63"
    using a(1) by (rule signed_take_bit_int_less_eq)
  then have "signed_take_bit 63 i \<le> i - 18446744073709551616" by simp
  moreover have "i < 18446744073709551616" using a(2) by simp
  ultimately have "signed_take_bit 63 i < 0" by linarith
  then show ?thesis unfolding goInt_def sint_sbintrunc' by simp
qed

lemma sint_nonneg_unat: "0 \<le> sint (p :: 64 word) \<Longrightarrow> sint p = int (unat p)"
proof -
  assume nn: "0 \<le> sint p"
  have u: "0 \<le> uint p" "uint p < 2 ^ 64" using uint_lt2p [of p] by simp_all
  have s: "sint p = signed_take_bit 63 (uint p)" by (simp add: sint_uint)
  have "uint p < 2 ^ 63"
  proof (rule ccontr)
    assume "\<not> uint p < 2 ^ 63"
    then have "2 ^ 63 \<le> uint p" by simp
    then have "signed_take_bit 63 (uint p) \<le> uint p - 2 ^ Suc 63"
      by (rule signed_take_bit_int_less_eq)
    then have "signed_take_bit 63 (uint p) \<le> uint p - 18446744073709551616" by simp
    moreover have "uint p < 18446744073709551616" using u(2) by simp
    ultimately show False using nn s by linarith
  qed
  moreover have "- (2 ^ 63) \<le> uint p" by (rule order_trans [of _ 0]) simp_all
  ultimately have "signed_take_bit 63 (uint p) = uint p"
    by (intro signed_take_bit_int_eq_self)
  then have "sint p = uint p" using s by simp
  then show ?thesis by (metis uint_nat)
qed

lemma sint_ge_min64: "- (2 ^ 63) \<le> sint (p :: 64 word)"
  using sint_ge [of p] by simp

lemma length_filter_notin:
  assumes "distinct xs" "D \<subseteq> set xs"
  shows "length (filter (\<lambda>x. x \<notin> D) xs) = length xs - card D"
proof -
  have "finite D" using assms(2) finite_subset by auto
  have "length (filter (\<lambda>x. x \<notin> D) xs) = card ({x. x \<notin> D} \<inter> set xs)"
    using assms(1) by (rule distinct_length_filter)
  also have "{x. x \<notin> D} \<inter> set xs = set xs - D" by auto
  also have "card (set xs - D) = card (set xs) - card D"
    using assms(2) \<open>finite D\<close> by (simp add: card_Diff_subset)
  finally show ?thesis using assms(1) by (simp add: distinct_card)
qed

lemma sorted_take_drop_le:
  assumes "sorted (map f xs)" "x \<in> set (take h xs)" "y \<in> set (drop h xs)"
  shows "f x \<le> f y"
proof -
  have "sorted (map f (take h xs) @ map f (drop h xs))"
    using assms(1) by (simp flip: map_append)
  then show ?thesis using assms(2,3) by (auto simp: sorted_append)
qed

lemma wfDir_managed_valid: "wfDir w \<Longrightarrow> f \<in> set (managed w) \<Longrightarrow> validName (Name f)"
  by (auto simp: wfDir_def managed_def list_all_iff)

text \<open>
  With pairwise distinct keys there is one sorted arrangement only: whatever order a
  sorting algorithm that is not stable gives equal keys, on such a list its result is
  that of \<^const>\<open>sort_key\<close>.
\<close>

lemma sorted_distinct_keys_unique:
  assumes "distinct (map f xs)" and "sorted (map f ys)"
    and "set ys = set xs" and "length ys = length xs"
  shows "ys = sort_key f xs"
proof -
  have dx: "distinct xs" and inj: "inj_on f (set xs)"
    using assms(1) by (simp_all add: distinct_map)
  have "card (set ys) = length ys"
    using dx assms(3,4) by (simp add: distinct_card)
  then have dy: "distinct ys" by (rule card_distinct)
  have dfy: "distinct (map f ys)" using dy inj assms(3) by (simp add: distinct_map)
  have "map f ys = map f (sort_key f xs)"
    using assms(2) dfy
  proof (rule sorted_distinct_set_unique)
    show "sorted (map f (sort_key f xs))" by simp
    show "distinct (map f (sort_key f xs))" using assms(1) by (simp add: distinct_map)
    show "set (map f ys) = set (map f (sort_key f xs))" using assms(3) by simp
  qed
  moreover have "inj_on f (set ys \<union> set (sort_key f xs))" using inj assms(3) by simp
  ultimately show ?thesis by (simp add: inj_on_map_eq_map)
qed

text \<open>
  Claim C1. In a well-formed directory whose managed files have pairwise distinct
  modification times, a run of \<open>cleanImages\<close> with a retention count \<open>k \<ge> 1\<close> that
  returns no error deletes a set \<open>D\<close> of \<open>N - k\<close> managed files (none when \<open>N \<le> k\<close>),
  each of them older than every managed file that stays; nothing else changes, and
  \<open>min N k\<close> managed files remain.
\<close>

theorem cleanImages_keeps_most_recent:
  assumes wf: "wfDir w"
    and dist: "distinct (map ModTime (managed w))"
    and k: "preserve' \<noteq> 0"
    and run: "cleanImages a preserve' w = (None, w')"
  shows "\<exists>D. D \<subseteq> set (managed w)
      \<and> card D = length (managed w) - unat preserve'
      \<and> (\<forall>d \<in> D. \<forall>f \<in> set (managed w) - D. ModTime d < ModTime f)
      \<and> w' = w\<lparr>files := filter (\<lambda>f. f \<notin> D) (files w)\<rparr>
      \<and> length (managed w') = min (length (managed w)) (unat preserve')"
proof -
  let ?P = "\<lambda>f. HasPrefix (Name f) imagePrefix"
  let ?N = "length (managed w)"
  have dn: "distinct (map Name (files w))" using wf by (simp add: wfDir_def)
  have dm: "distinct (managed w)" using dist by (simp add: distinct_map)
  have inj: "inj_on ModTime (set (managed w))" using dist by (simp add: distinct_map)
  from run k obtain fs where rd: "osReadDir w = Some (sort_key Name (files w))"
    and mi: "managedInfos w (sort_key Name (files w)) [] = Inr fs"
    by (auto simp: cleanImages_def osReadDir_def split: if_splits option.splits sum.splits)
  have fs: "fs = sort_key Name (managed w)"
    using managedInfos_Inr [OF mi dn] by (simp add: managed_def filter_sort)
  have lfs: "length fs = ?N" and sfs: "set fs = set (managed w)" by (simp_all add: fs)
  have Nb: "int ?N < 2 ^ 63"
  proof -
    have "?N \<le> length (files w)" by (simp add: managed_def)
    moreover have "length (files w) < 2 ^ 63" using wf by (simp add: wfDir_def)
    ultimately have "?N < 2 ^ 63" by simp
    then have "int ?N < int (2 ^ 63)" by (simp only: of_nat_less_iff)
    then show ?thesis by simp
  qed
  show ?thesis
  proof (cases "int ?N \<le> sint preserve'")
    case True
    then have w': "w' = w" using run k rd mi by (simp add: cleanImages_def lfs)
    from True have "0 \<le> sint preserve'" by simp
    then have "sint preserve' = int (unat preserve')" by (rule sint_nonneg_unat)
    with True have le: "?N \<le> unat preserve'" by linarith
    show ?thesis
      by (rule exI [of _ "{}"]) (use le w' in simp)
  next
    case False
    define srt where "srt = sort_key ModTime fs"
    define hi where "hi = goInt (int ?N - sint preserve')"
    from False run k rd mi have nopanic: "\<not> (hi < 0 \<or> int ?N < hi)"
      and del: "deleteImages (dir a) (take (nat hi) srt) w = (None, w')"
      by (auto simp: cleanImages_def lfs Let_def hi_def srt_def
          split: if_splits prod.splits option.splits)
    have nn: "0 \<le> sint preserve'"
    proof (rule ccontr)
      assume "\<not> 0 \<le> sint preserve'"
      then have neg: "sint preserve' < 0" by simp
      have lo: "- (2 ^ 63) \<le> sint preserve'" by (rule sint_ge_min64)
      show False
      proof (cases "int ?N - sint preserve' < 2 ^ 63")
        case True
        then have "hi = int ?N - sint preserve'"
          unfolding hi_def using neg by (intro goInt_in_range) simp_all
        then show False using nopanic neg by simp
      next
        case False
        then have "2 ^ 63 \<le> int ?N - sint preserve'" by simp
        moreover have "int ?N - sint preserve' < 2 ^ 64" using Nb lo by simp
        ultimately have "hi < 0" unfolding hi_def by (rule goInt_wraps)
        then show False using nopanic by simp
      qed
    qed
    then have sp: "sint preserve' = int (unat preserve')" by (rule sint_nonneg_unat)
    have "hi = int ?N - sint preserve'"
      unfolding hi_def using nn False Nb by (intro goInt_in_range) simp_all
    then have h: "nat hi = ?N - unat preserve'" using sp by linarith
    have lt: "unat preserve' < ?N" using False sp by linarith
    define D where "D = set (take (nat hi) srt)"
    have ssrt: "set srt = set (managed w)" and lsrt: "length srt = ?N"
      by (simp_all add: srt_def sfs lfs)
    have dsrt: "distinct srt" using dm by (simp add: srt_def fs)
    have sub: "D \<subseteq> set (managed w)"
      unfolding D_def using ssrt set_take_subset by fastforce
    have cardD: "card D = ?N - unat preserve'"
    proof -
      have "card D = length (take (nat hi) srt)"
        unfolding D_def using dsrt by (simp add: distinct_card)
      then show ?thesis using h lsrt by simp
    qed
    have older: "\<forall>d \<in> D. \<forall>f \<in> set (managed w) - D. ModTime d < ModTime f"
    proof (intro ballI)
      fix d f assume d: "d \<in> D" and f: "f \<in> set (managed w) - D"
      have "set srt = set (take (nat hi) srt) \<union> set (drop (nat hi) srt)"
        by (metis append_take_drop_id set_append)
      with f ssrt have fd: "f \<in> set (drop (nat hi) srt)" by (auto simp: D_def)
      have "sorted (map ModTime srt)" by (simp add: srt_def)
      then have "ModTime d \<le> ModTime f"
        using d fd unfolding D_def by (rule sorted_take_drop_le)
      moreover have "ModTime d \<noteq> ModTime f"
        using inj d f sub by (auto dest: inj_onD)
      ultimately show "ModTime d < ModTime f" by simp
    qed
    have valid: "list_all (\<lambda>f. validName (Name f)) (take (nat hi) srt)"
      using sub wf unfolding D_def by (auto simp: list_all_iff intro: wfDir_managed_valid)
    have w1: "w' = w\<lparr>files := filter (\<lambda>g. Name g \<notin> Name ` D) (files w)\<rparr>"
      using deleteImages_None [OF del valid] by (simp add: D_def)
    have injN: "inj_on Name (set (files w))" using dn by (simp add: distinct_map)
    have Dfiles: "D \<subseteq> set (files w)" using sub by (auto simp: managed_def)
    have eqf: "filter (\<lambda>g. Name g \<notin> Name ` D) (files w) = filter (\<lambda>g. g \<notin> D) (files w)"
    proof (rule filter_cong [OF refl])
      fix g assume "g \<in> set (files w)"
      then show "(Name g \<notin> Name ` D) = (g \<notin> D)"
        using injN Dfiles by (auto dest: inj_onD)
    qed
    have w2: "w' = w\<lparr>files := filter (\<lambda>g. g \<notin> D) (files w)\<rparr>" using w1 eqf by simp
    have "managed w' = filter (\<lambda>g. g \<notin> D) (managed w)"
      by (simp add: w2 managed_def conj_commute)
    then have "length (managed w') = ?N - card D"
      using length_filter_notin [OF dm sub] by simp
    then have len: "length (managed w') = min ?N (unat preserve')"
      using cardD lt by simp
    show ?thesis
      by (rule exI [of _ D]) (use sub cardD older w2 len in blast)
  qed
qed

theorem cleanImages_keeps_most_recent_witness:
  "wfDir sampleWorld \<and> distinct (map ModTime (managed sampleWorld)) \<and> (2 :: 64 word) \<noteq> 0
   \<and> cleanImages sampleApp 2 sampleWorld = (None, sampleWorld\<lparr>files := take 3 sampleFiles\<rparr>)
   \<and> length (managed (sampleWorld\<lparr>files := take 3 sampleFiles\<rparr>))
       = min (length (managed sampleWorld)) (unat (2 :: 64 word))"
proof -
  have wf: "wfDir sampleWorld"
    by (simp add: wfDir_def sampleWorld_def sampleFiles_def validName_def)
  have dist: "distinct (map ModTime (managed sampleWorld))"
    by (simp add: managed_def sampleWorld_def sampleFiles_def HasPrefix_def imagePrefix_def)
  have k: "(2 :: 64 word) \<noteq> 0" by simp
  have run: "cleanImages sampleApp 2 sampleWorld
      = (None, sampleWorld\<lparr>files := take 3 sampleFiles\<rparr>)"
    by (simp add: cleanImages_def sampleWorld_def sampleFiles_def sampleApp_def osReadDir_def
        entryInfo_def lookupFile_def HasPrefix_def imagePrefix_def goInt_def osRemove_def
        pathJoin_def pathClean_def pathBase_def cleanStep_def Let_def)
  from cleanImages_keeps_most_recent [OF wf dist k run]
  have "length (managed (sampleWorld\<lparr>files := take 3 sampleFiles\<rparr>))
      = min (length (managed sampleWorld)) (unat (2 :: 64 word))"
    by blast
  with wf dist k run show ?thesis by blast
qed

text \<open>
  Claim C2. With retention count 0, \<open>cleanImages\<close> returns no error and leaves the
  world, and so every file of the directory, as it was.
\<close>

theorem cleanImages_preserve_zero: "cleanImages a 0 w = (None, w)"
  by (simp add: cleanImages_def)

theorem cleanImages_preserve_zero_witness:
  "cleanImages sampleApp 0 sampleWorld = (None, sampleWorld)"
  using cleanImages_preserve_zero [of sampleApp sampleWorld] .

text \<open>
  A retention count of \<open>2\<^sup>6\<^sup>4 - 1\<close> is \<open>-1\<close> as an \<open>int\<close>. With three managed files
  in a slice of capacity four the bound of the slice expression is four: the run
  removes the three files and panics at the nil entry that follows them.
\<close>

lemma cleanImages_bound_within_capacity:
  "cleanImages sampleApp (- 1) threeManagedWorld =
     (Some PanicNilEntry,
      threeManagedWorld\<lparr>files :=
        [\<lparr>Name = ''holiday.jpg'', ModTime = 5, contents = ''hh'', immutable = False\<rparr>]\<rparr>)"
  by (simp add: cleanImages_def threeManagedWorld_def sampleWorld_def sampleFiles_def
      sampleApp_def osReadDir_def entryInfo_def lookupFile_def HasPrefix_def imagePrefix_def
      goInt_def osRemove_def pathJoin_def pathClean_def pathBase_def cleanStep_def Let_def)

section \<open>Properties of the locale step of Get\<close>

lemma Split_first_segment: "c \<notin> set a \<Longrightarrow> Split (a @ c # b) c ! 0 = a"
  by (simp add: Split_append_sep Split_no_sep)

lemma Split_last_segment:
  "c \<notin> set b \<Longrightarrow> Split (a @ c # b) c ! (length (Split (a @ c # b) c) - 1) = b"
  by (simp add: Split_append_sep Split_no_sep nth_append)

lemma ReplaceAll_none: "old \<notin> set s \<Longrightarrow> ReplaceAll s old new = s"
  by (induction s) (auto simp: ReplaceAll_def)

lemma ReplaceAll_append:
  "ReplaceAll (a @ b) old new = ReplaceAll a old new @ ReplaceAll b old new"
  by (simp add: ReplaceAll_def)

text \<open>Neither step can fail: \<open>strings.Split\<close> never returns an empty slice, so the two
  error returns (lines 49 and 56) are never taken.\<close>

lemma parseLocale_never_fails: "\<exists>l. parseLocale s = Inr l"
  by (simp add: parseLocale_def Let_def Split_not_Nil)

lemma parseCountry_never_fails: "\<exists>c. parseCountry s = Inr c"
  by (simp add: parseCountry_def Let_def Split_not_Nil)

lemma LANG_en_US:
  "parseLocale ''en_US.UTF-8'' = Inr ''en-US''" "parseCountry ''en-US'' = Inr ''US''"
  by (simp_all add: parseLocale_def parseCountry_def ReplaceAll_def)

text \<open>
  Claim C3. For \<open>LANG = lang_REGION.enc\<close>, where \<open>lang\<close> and \<open>REGION\<close> hold none of
  the separators (no dot and no underscore, and no hyphen in \<open>REGION\<close>), the locale is
  \<open>lang-REGION\<close> and the country is \<open>REGION\<close>.
\<close>

theorem locale_of_conventional_LANG:
  assumes "CHR ''.'' \<notin> set lang" and "CHR ''_'' \<notin> set lang"
    and "CHR ''.'' \<notin> set region" and "CHR ''_'' \<notin> set region" and "CHR ''-'' \<notin> set region"
  shows "parseLocale (lang @ ''_'' @ region @ ''.'' @ enc) = Inr (lang @ ''-'' @ region)
       \<and> parseCountry (lang @ ''-'' @ region) = Inr region"
proof -
  have "CHR ''.'' \<notin> set (lang @ ''_'' @ region)" using assms by simp
  then have "Split ((lang @ ''_'' @ region) @ CHR ''.'' # enc) (CHR ''.'') ! 0
      = lang @ ''_'' @ region"
    by (rule Split_first_segment)
  then have seg: "Split (lang @ ''_'' @ region @ ''.'' @ enc) (CHR ''.'') ! 0
      = lang @ ''_'' @ region"
    by simp
  have u: "ReplaceAll ''_'' (CHR ''_'') (CHR ''-'') = ''-''" by (simp add: ReplaceAll_def)
  have l: "ReplaceAll lang (CHR ''_'') (CHR ''-'') = lang"
    using assms(2) by (rule ReplaceAll_none)
  have r: "ReplaceAll region (CHR ''_'') (CHR ''-'') = region"
    using assms(4) by (rule ReplaceAll_none)
  have rep: "ReplaceAll (lang @ ''_'' @ region) (CHR ''_'') (CHR ''-'') = lang @ ''-'' @ region"
    by (simp only: ReplaceAll_append u l r)
  have loc: "parseLocale (lang @ ''_'' @ region @ ''.'' @ enc) = Inr (lang @ ''-'' @ region)"
    using seg rep by (simp add: parseLocale_def Let_def Split_not_Nil)
  have "Split (lang @ CHR ''-'' # region) (CHR ''-'')
          ! (length (Split (lang @ CHR ''-'' # region) (CHR ''-'')) - 1) = region"
    using assms(5) by (rule Split_last_segment)
  then have "parseCountry (lang @ ''-'' @ region) = Inr region"
    by (simp add: parseCountry_def Let_def Split_not_Nil)
  with loc show ?thesis by simp
qed

theorem locale_of_conventional_LANG_witness:
  "parseLocale ''en_US.UTF-8'' = Inr ''en-US'' \<and> parseCountry ''en-US'' = Inr ''US''"
  using locale_of_conventional_LANG [of "''en''" "''US''" "''UTF-8''"] by simp

section \<open>The bound of the parser\<close>

text \<open>
  Every successful call of the parser consumes input, and a call that returns with
  some bound returns the same with every bound of at least twice the number of
  characters it consumed.
\<close>

lemma skipSpace_length: "length (skipSpace s) \<le> length s"
  by (simp add: skipSpace_def length_dropWhile_le)

lemma parseStr_shorter: "parseStr acc s = Some (x, r) \<Longrightarrow> length r < length s"
proof (induction acc s rule: parseStr.induct)
  case (1 acc)
  then show ?case by simp
next
  case (2 acc c cs)
  note IH = "2.IH" and pr = "2.prems"
  show ?case
  proof (cases "c = CHR 0x22")
    case True
    then show ?thesis using pr by simp
  next
    case nq: False
    show ?thesis
    proof (cases "c = CHR 0x5C")
      case bs: True
      show ?thesis
      proof (cases cs)
        case Nil
        then show ?thesis using pr nq bs by simp
      next
        case (Cons e es)
        show ?thesis
        proof (cases "e = CHR ''u''")
          case u: True
          show ?thesis
          proof (cases "hex4 es")
            case None
            then show ?thesis using pr nq bs Cons u by simp
          next
            case (Some rr)
            have "parseStr (acc @ fst (unicodeEscape rr (drop 4 es)))
                (drop (4 + snd (unicodeEscape rr (drop 4 es))) es) = Some (x, r)"
              using pr nq bs Cons u Some by simp
            then have "length r < length (drop (4 + snd (unicodeEscape rr (drop 4 es))) es)"
              by (rule IH(1) [OF nq bs Cons u Some])
            then show ?thesis using Cons by simp
          qed
        next
          case nu: False
          show ?thesis
          proof (cases "escapeChar e")
            case None
            then show ?thesis using pr nq bs Cons nu by simp
          next
            case (Some y)
            have "parseStr (acc @ [y]) es = Some (x, r)"
              using pr nq bs Cons nu Some by simp
            then have "length r < length es" by (rule IH(2) [OF nq bs Cons nu Some])
            then show ?thesis using Cons by simp
          qed
        qed
      qed
    next
      case nb: False
      show ?thesis
      proof (cases "(of_char c :: nat) < 0x20")
        case True
        then show ?thesis using pr nq nb by simp
      next
        case nc: False
        show ?thesis
        proof (cases "(of_char c :: nat) < 0x80")
          case True
          then have "parseStr (acc @ [c]) cs = Some (x, r)" using pr nq nb nc by simp
          then have "length r < length cs" using nc True by (intro IH(3) [OF nq nb]) simp_all
          then show ?thesis by simp
        next
          case na: False
          let ?k = "utf8Size (map of_char (take 4 (c # cs)))"
          show ?thesis
          proof (cases "?k = 0")
            case True
            then have "parseStr (acc @ replacementChar) cs = Some (x, r)"
              using pr nq nb nc na by simp
            then have "length r < length cs"
              using nc na True by (intro IH(4) [OF nq nb]) simp_all
            then show ?thesis by simp
          next
            case False
            then have "parseStr (acc @ take ?k (c # cs)) (drop (?k - 1) cs) = Some (x, r)"
              using pr nq nb nc na by simp
            then have "length r < length (drop (?k - 1) cs)"
              using nc na False by (intro IH(5) [OF nq nb]) simp_all
            then show ?thesis by simp
          qed
        qed
      qed
    qed
  qed
qed

lemma digitsThen_shorter:
  assumes "digitsThen s k = Some r" and "\<And>t. k t = Some r \<Longrightarrow> length r \<le> length t"
  shows "length r \<le> length s"
proof -
  from assms(1) have "k (dropWhile isDigit s) = Some r"
    by (auto simp: digitsThen_def split: if_splits)
  then have "length r \<le> length (dropWhile isDigit s)" by (rule assms(2))
  also have "\<dots> \<le> length s" by (rule length_dropWhile_le)
  finally show ?thesis .
qed

lemma parseExponent_shorter: "parseExponent s = Some r \<Longrightarrow> length r \<le> length s"
proof (cases s)
  case Nil
  then show "parseExponent s = Some r \<Longrightarrow> length r \<le> length s"
    by (simp add: parseExponent_def)
next
  case (Cons c cs)
  assume a: "parseExponent s = Some r"
  show "length r \<le> length s"
  proof (cases "c = CHR ''e'' \<or> c = CHR ''E''")
    case False
    then show ?thesis using a Cons by (auto simp: parseExponent_def)
  next
    case True
    show ?thesis
    proof (cases cs)
      case Nil
      then show ?thesis using a Cons True by (auto simp: parseExponent_def)
    next
      case (Cons c' cs')
      let ?t = "if c' = CHR ''+'' \<or> c' = CHR ''-'' then cs' else cs"
      have "digitsThen ?t Some = Some r"
        using a \<open>s = c # cs\<close> Cons True by (auto simp: parseExponent_def)
      then have "length r \<le> length ?t" by (rule digitsThen_shorter) simp
      then show ?thesis using \<open>s = c # cs\<close> Cons by (auto split: if_splits)
    qed
  qed
qed

lemma parseFraction_shorter: "parseFraction s = Some r \<Longrightarrow> length r \<le> length s"
proof (cases s)
  case Nil
  then show "parseFraction s = Some r \<Longrightarrow> length r \<le> length s"
    by (simp add: parseFraction_def)
next
  case (Cons c cs)
  assume a: "parseFraction s = Some r"
  show "length r \<le> length s"
  proof (cases "c = CHR ''.''")
    case True
    then have "digitsThen cs parseExponent = Some r" using a Cons by (simp add: parseFraction_def)
    then have "length r \<le> length cs"
      by (rule digitsThen_shorter) (rule parseExponent_shorter)
    then show ?thesis using Cons by simp
  next
    case False
    then have "parseExponent s = Some r" using a Cons by (simp add: parseFraction_def)
    then show ?thesis by (rule parseExponent_shorter)
  qed
qed

lemma parseNumber_shorter: "parseNumber s = Some (lit, r) \<Longrightarrow> length r < length s"
proof -
  assume a: "parseNumber s = Some (lit, r)"
  define s1 where "s1 = (case s of [] \<Rightarrow> s | c # cs \<Rightarrow> if c = CHR ''-'' then cs else s)"
  have l1: "length s1 \<le> length s" by (auto simp: s1_def split: list.splits)
  from a obtain c cs where s1: "s1 = c # cs"
    and fr: "(if c = CHR ''0'' then parseFraction cs
              else if isDigit c then parseFraction (dropWhile isDigit cs) else None) = Some r"
    unfolding parseNumber_def s1_def [symmetric] Let_def
    by (cases s1) (auto split: option.splits)
  have "length r \<le> length cs"
  proof (cases "c = CHR ''0''")
    case True
    then show ?thesis using fr parseFraction_shorter by simp
  next
    case False
    then have "parseFraction (dropWhile isDigit cs) = Some r" using fr by (auto split: if_splits)
    then have "length r \<le> length (dropWhile isDigit cs)" by (rule parseFraction_shorter)
    also have "\<dots> \<le> length cs" by (rule length_dropWhile_le)
    finally show ?thesis .
  qed
  then show ?thesis using s1 l1 by simp
qed

lemma HasPrefix_length: "HasPrefix s p \<Longrightarrow> length p \<le> length s"
  by (metis HasPrefix_def length_take min.cobounded1)

lemma parse_fuel:
  "(\<forall>d s v r. parseValue n d s = Some (v, r) \<longrightarrow>
       length r < length s \<and>
       (\<forall>m. 2 * (length s - length r) \<le> m \<longrightarrow> parseValue m d s = Some (v, r)))
   \<and> (\<forall>d acc s v r. parseElements n d acc s = Some (v, r) \<longrightarrow>
       length r < length s \<and>
       (\<forall>m. 2 * (length s - length r) \<le> m \<longrightarrow> parseElements m d acc s = Some (v, r)))
   \<and> (\<forall>d acc s v r. parseMembers n d acc s = Some (v, r) \<longrightarrow>
       length r < length s \<and>
       (\<forall>m. 2 * (length s - length r) \<le> m \<longrightarrow> parseMembers m d acc s = Some (v, r)))"
proof (induction n)
  case 0
  show ?case by simp
next
  case (Suc n)
  have Vl: "length r < length s" if "parseValue n d s = Some (v, r)" for d s v r
    using Suc that by blast
  have Vm: "parseValue m d s = Some (v, r)"
    if "parseValue n d s = Some (v, r)" "2 * (length s - length r) \<le> m" for d s v r m
    using Suc that by blast
  have El: "length r < length s" if "parseElements n d acc s = Some (v, r)" for d acc s v r
    using Suc that by blast
  have Em: "parseElements m d acc s = Some (v, r)"
    if "parseElements n d acc s = Some (v, r)" "2 * (length s - length r) \<le> m"
    for d acc s v r m
    using Suc that by blast
  have Ml: "length r < length s" if "parseMembers n d acc s = Some (v, r)" for d acc s v r
    using Suc that by blast
  have Mm: "parseMembers m d acc s = Some (v, r)"
    if "parseMembers n d acc s = Some (v, r)" "2 * (length s - length r) \<le> m"
    for d acc s v r m
    using Suc that by blast

  have V: "length r < length s \<and>
       (\<forall>m. 2 * (length s - length r) \<le> m \<longrightarrow> parseValue m d s = Some (v, r))"
    if run: "parseValue (Suc n) d s = Some (v, r)" for d s v r
  proof -
    from run obtain c cs where s: "s = c # cs" by (cases s) auto
    consider (obj) "c = CHR ''{''" | (arr) "c \<noteq> CHR ''{''" "c = CHR ''[''"
      | (scalar) "c \<noteq> CHR ''{''" "c \<noteq> CHR ''[''"
      by blast
    then show ?thesis
    proof cases
      case obj
      from run s obj have nd: "\<not> maxNestingDepth \<le> d" by (auto split: if_splits)
      from run s obj nd obtain c' cs' where t: "skipSpace cs = c' # cs'"
        by (cases "skipSpace cs") auto
      have tl: "Suc (length cs') \<le> length cs" using skipSpace_length [of cs] t by simp
      show ?thesis
      proof (cases "c' = CHR ''}''")
        case True
        then have vr: "v = JObject []" "r = cs'" using run s obj nd t by auto
        have "parseValue m d s = Some (v, r)" if "2 * (length s - length r) \<le> m" for m
        proof -
          from that vr s tl obtain m' where "m = Suc m'" by (cases m) auto
          then show ?thesis using s obj nd t True vr by simp
        qed
        then show ?thesis using vr s tl by simp
      next
        case False
        then have rec: "parseMembers n (Suc d) [] (c' # cs') = Some (v, r)"
          using run s obj nd t by simp
        have lr: "length r < length (c' # cs')" using rec by (rule Ml)
        have "parseValue m d s = Some (v, r)" if "2 * (length s - length r) \<le> m" for m
        proof -
          from that s tl lr obtain m' where m: "m = Suc m'" by (cases m) auto
          have "2 * (length (c' # cs') - length r) \<le> m'" using that m s tl lr by simp
          then have "parseMembers m' (Suc d) [] (c' # cs') = Some (v, r)" by (rule Mm [OF rec])
          then show ?thesis using m s obj nd t False by simp
        qed
        then show ?thesis using lr s tl by simp
      qed
    next
      case arr
      from run s arr have nd: "\<not> maxNestingDepth \<le> d" by (auto split: if_splits)
      from run s arr nd obtain c' cs' where t: "skipSpace cs = c' # cs'"
        by (cases "skipSpace cs") auto
      have tl: "Suc (length cs') \<le> length cs" using skipSpace_length [of cs] t by simp
      show ?thesis
      proof (cases "c' = CHR '']''")
        case True
        then have vr: "v = JArray []" "r = cs'" using run s arr nd t by auto
        have "parseValue m d s = Some (v, r)" if "2 * (length s - length r) \<le> m" for m
        proof -
          from that vr s tl obtain m' where "m = Suc m'" by (cases m) auto
          then show ?thesis using s arr nd t True vr by simp
        qed
        then show ?thesis using vr s tl by simp
      next
        case False
        then have rec: "parseElements n (Suc d) [] (c' # cs') = Some (v, r)"
          using run s arr nd t by simp
        have lr: "length r < length (c' # cs')" using rec by (rule El)
        have "parseValue m d s = Some (v, r)" if "2 * (length s - length r) \<le> m" for m
        proof -
          from that s tl lr obtain m' where m: "m = Suc m'" by (cases m) auto
          have "2 * (length (c' # cs') - length r) \<le> m'" using that m s tl lr by simp
          then have "parseElements m' (Suc d) [] (c' # cs') = Some (v, r)" by (rule Em [OF rec])
          then show ?thesis using m s arr nd t False by simp
        qed
        then show ?thesis using lr s tl by simp
      qed
    next
      case scalar
      have same: "parseValue (Suc m') d s = parseValue (Suc n) d s" for m'
        using s scalar by simp
      have lr: "length r < length s"
      proof (cases "c = CHR 0x22")
        case True
        then obtain str where "parseStr [] cs = Some (str, r)"
          using run s scalar by (auto split: option.splits)
        then have "length r < length cs" by (rule parseStr_shorter)
        then show ?thesis using s by simp
      next
        case q: False
        show ?thesis
        proof (cases "HasPrefix s ''true''")
          case True
          then have "4 \<le> length s" by (auto dest: HasPrefix_length)
          moreover have "r = drop 4 s" using run s scalar q True by (auto split: if_splits)
          ultimately show ?thesis by simp
        next
          case nt: False
          show ?thesis
          proof (cases "HasPrefix s ''false''")
            case True
            then have "5 \<le> length s" by (auto dest: HasPrefix_length)
            moreover have "r = drop 5 s" using run s scalar q nt True by (auto split: if_splits)
            ultimately show ?thesis by simp
          next
            case nf: False
            show ?thesis
            proof (cases "HasPrefix s ''null''")
              case True
              then have "4 \<le> length s" by (auto dest: HasPrefix_length)
              moreover have "r = drop 4 s"
                using run s scalar q nt nf True by (auto split: if_splits)
              ultimately show ?thesis by simp
            next
              case False
              then obtain lit where "parseNumber s = Some (lit, r)"
                using run s scalar q nt nf by (auto split: option.splits if_splits)
              then show ?thesis by (rule parseNumber_shorter)
            qed
          qed
        qed
      qed
      have "parseValue m d s = Some (v, r)" if "2 * (length s - length r) \<le> m" for m
      proof -
        from that lr obtain m' where "m = Suc m'" by (cases m) auto
        then show ?thesis using same [of m'] run by simp
      qed
      then show ?thesis using lr by simp
    qed
  qed

  have E: "length r < length s \<and>
       (\<forall>m. 2 * (length s - length r) \<le> m \<longrightarrow> parseElements m d acc s = Some (v, r))"
    if run: "parseElements (Suc n) d acc s = Some (v, r)" for d acc s v r
  proof -
    from run obtain x r1 where pv: "parseValue n d s = Some (x, r1)"
      by (auto split: option.splits)
    from run pv obtain c cs where t: "skipSpace r1 = c # cs"
      by (cases "skipSpace r1") auto
    have l1: "length r1 < length s" using pv by (rule Vl)
    have tl: "Suc (length cs) \<le> length r1" using skipSpace_length [of r1] t by simp
    show ?thesis
    proof (cases "c = CHR '',''")
      case True
      then have rec: "parseElements n d (acc @ [x]) (skipSpace cs) = Some (v, r)"
        using run pv t by simp
      have lr: "length r < length (skipSpace cs)" using rec by (rule El)
      have lc: "length (skipSpace cs) \<le> length cs" by (rule skipSpace_length)
      have "parseElements m d acc s = Some (v, r)" if "2 * (length s - length r) \<le> m" for m
      proof -
        from that l1 tl lr lc obtain m' where m: "m = Suc m'" by (cases m) auto
        have "2 * (length s - length r1) \<le> m'" using that m l1 tl lr lc by simp
        then have 1: "parseValue m' d s = Some (x, r1)" by (rule Vm [OF pv])
        have "2 * (length (skipSpace cs) - length r) \<le> m'" using that m l1 tl lr lc by simp
        then have 2: "parseElements m' d (acc @ [x]) (skipSpace cs) = Some (v, r)"
          by (rule Em [OF rec])
        show ?thesis using m 1 2 t True by simp
      qed
      then show ?thesis using l1 tl lr lc by simp
    next
      case nc: False
      then have br: "c = CHR '']''" and vr: "v = JArray (acc @ [x])" "r = cs"
        using run pv t by (auto split: if_splits)
      have "parseElements m d acc s = Some (v, r)" if "2 * (length s - length r) \<le> m" for m
      proof -
        from that l1 tl vr obtain m' where m: "m = Suc m'" by (cases m) auto
        have "2 * (length s - length r1) \<le> m'" using that m l1 tl vr by simp
        then have 1: "parseValue m' d s = Some (x, r1)" by (rule Vm [OF pv])
        show ?thesis using m 1 t nc br vr by simp
      qed
      then show ?thesis using l1 tl vr by simp
    qed
  qed

  have M: "length r < length s \<and>
       (\<forall>m. 2 * (length s - length r) \<le> m \<longrightarrow> parseMembers m d acc s = Some (v, r))"
    if run: "parseMembers (Suc n) d acc s = Some (v, r)" for d acc s v r
  proof -
    from run obtain q s1 where s: "s = q # s1" by (cases s) auto
    from run s have q: "q = CHR 0x22" by (auto split: if_splits)
    from run s q obtain k r1 where ps: "parseStr [] s1 = Some (k, r1)"
      by (auto split: option.splits)
    from run s q ps obtain c r2 where t1: "skipSpace r1 = c # r2"
      by (cases "skipSpace r1") auto
    from run s q ps t1 have col: "c = CHR '':''" by (auto split: if_splits)
    from run s q ps t1 col obtain x r3 where pv: "parseValue n d (skipSpace r2) = Some (x, r3)"
      by (auto split: option.splits)
    from run s q ps t1 col pv obtain c' r4 where t3: "skipSpace r3 = c' # r4"
      by (cases "skipSpace r3") auto
    have a1: "length r1 < length s1" using ps by (rule parseStr_shorter)
    have a2: "Suc (length r2) \<le> length r1" using skipSpace_length [of r1] t1 by simp
    have a3: "length (skipSpace r2) \<le> length r2" by (rule skipSpace_length)
    have a4: "length r3 < length (skipSpace r2)" using pv by (rule Vl)
    have a5: "Suc (length r4) \<le> length r3" using skipSpace_length [of r3] t3 by simp
    show ?thesis
    proof (cases "c' = CHR '',''")
      case True
      then have rec: "parseMembers n d (acc @ [(k, x)]) (skipSpace r4) = Some (v, r)"
        using run s q ps t1 col pv t3 by simp
      have lr: "length r < length (skipSpace r4)" using rec by (rule Ml)
      have lc: "length (skipSpace r4) \<le> length r4" by (rule skipSpace_length)
      have "parseMembers m d acc s = Some (v, r)" if "2 * (length s - length r) \<le> m" for m
      proof -
        from that s a1 a2 a3 a4 a5 lr lc obtain m' where m: "m = Suc m'" by (cases m) auto
        have "2 * (length (skipSpace r2) - length r3) \<le> m'"
          using that m s a1 a2 a3 a4 a5 lr lc by simp
        then have 1: "parseValue m' d (skipSpace r2) = Some (x, r3)" by (rule Vm [OF pv])
        have "2 * (length (skipSpace r4) - length r) \<le> m'"
          using that m s a1 a2 a3 a4 a5 lr lc by simp
        then have 2: "parseMembers m' d (acc @ [(k, x)]) (skipSpace r4) = Some (v, r)"
          by (rule Mm [OF rec])
        show ?thesis using m 1 2 s q ps t1 col t3 True by simp
      qed
      then show ?thesis using s a1 a2 a3 a4 a5 lr lc by simp
    next
      case nc: False
      then have br: "c' = CHR ''}''" and vr: "v = JObject (acc @ [(k, x)])" "r = r4"
        using run s q ps t1 col pv t3 by (auto split: if_splits)
      have "parseMembers m d acc s = Some (v, r)" if "2 * (length s - length r) \<le> m" for m
      proof -
        from that s a1 a2 a3 a4 a5 vr obtain m' where m: "m = Suc m'" by (cases m) auto
        have "2 * (length (skipSpace r2) - length r3) \<le> m'"
          using that m s a1 a2 a3 a4 a5 vr by simp
        then have 1: "parseValue m' d (skipSpace r2) = Some (x, r3)" by (rule Vm [OF pv])
        show ?thesis using m 1 s q ps t1 col t3 nc br vr by simp
      qed
      then show ?thesis using s a1 a2 a3 a4 a5 vr by simp
    qed
  qed

  show ?case using V E M by blast
qed

text \<open>
  The bound that \<open>jsonValue\<close> passes is never the reason for a failure: a value that
  some bound gives is the value \<open>jsonValue\<close> works with.
\<close>

lemma parseValue_bound_enough:
  assumes "parseValue n d s = Some (v, r)"
  shows "parseValue (2 * length s + 2) d s = Some (v, r)"
proof -
  have "2 * (length s - length r) \<le> 2 * length s + 2" by simp
  with parse_fuel [of n] assms show ?thesis by blast
qed

lemma jsonValue_any_bound:
  assumes "parseValue n 0 (skipSpace t) = Some (v, r)"
  shows "jsonValue t e =
     (case v of JArray _ \<Rightarrow> Some v | JObject _ \<Rightarrow> Some v
      | _ \<Rightarrow> if r = [] \<and> e then None else Some v)"
  using parseValue_bound_enough [OF assms] by (simp add: jsonValue_def)

section \<open>Properties of the decoding in Get\<close>

lemma keyIs_Ad: "keyIs ''Ad'' ''ad''"
  by (simp add: keyIs_def toUpper_def)

lemma keyIs_LandscapeImage: "keyIs ''LandscapeImage'' ''landscapeImage''"
  by (simp add: keyIs_def toUpper_def)

lemma keyIs_Asset: "keyIs ''Asset'' ''asset''"
  by (simp add: keyIs_def toUpper_def)

lemma storeMetadata_asset:
  "storeMetadata zeroMetadata
     (JObject [(''ad'', JObject [(''landscapeImage'', JObject [(''asset'', JString U)])])])
   = Some \<lparr>Ad = \<lparr>LandscapeImage = \<lparr>Asset = U\<rparr>\<rparr>\<rparr>"
  by (simp add: storeMetadata_def storeAd_def storeLandscapeImage_def storeStruct_def
      storeString_def zeroMetadata_def keyIs_Ad keyIs_LandscapeImage keyIs_Asset)

lemma Get_asset:
  assumes "parseLocale (LANG w) = Inr locale" and "parseCountry locale = Inr country"
    and "httpGet w (apiUrl country locale) = Some res" and "StatusCode res = 200"
    and "decodeBody res = Some b" and "sliceLen (Items (Batchrsp b)) \<noteq> 0"
    and "jsonValue (Item (sliceArray (Items (Batchrsp b)) ! 0)) False =
           Some (JObject [(''ad'', JObject [(''landscapeImage'', JObject [(''asset'', JString U)])])])"
  shows "Get w = Inr U"
  using assms by (simp add: Get_def decodeMetadata_def storeMetadata_asset)

lemma sampleItem_value:
  "jsonValue sampleItem False =
     Some (JObject [(''ad'', JObject [(''landscapeImage'',
             JObject [(''asset'', JString ''http://x/img.jpg'')])])])"
  by code_simp

lemma sampleEnvelope_body:
  "decodeBody \<lparr>StatusCode = 200, Body = sampleEnvelope, BodyErr = False\<rparr> =
     Some \<lparr>Batchrsp = \<lparr>Items = \<lparr>sliceArray = [\<lparr>Item = sampleItem\<rparr>], sliceLen = 1\<rparr>\<rparr>\<rparr>"
  by code_simp

lemma emptyEnvelope_body:
  "decodeBody \<lparr>StatusCode = 200, Body = emptyEnvelope, BodyErr = False\<rparr> =
     Some \<lparr>Batchrsp = \<lparr>Items = \<lparr>sliceArray = [], sliceLen = 0\<rparr>\<rparr>\<rparr>"
  by code_simp

lemma Get_sample:
  assumes "parseLocale (LANG w) = Inr locale" and "parseCountry locale = Inr country"
    and "httpGet w (apiUrl country locale)
          = Some \<lparr>StatusCode = 200, Body = sampleEnvelope, BodyErr = False\<rparr>"
  shows "Get w = Inr ''http://x/img.jpg''"
  by (rule Get_asset [OF assms _ sampleEnvelope_body]) (simp_all add: sampleItem_value)



text \<open>
  Claim C6. When the response of the service has status 200 and its envelope decodes
  to a \<open>body\<close> with no items, \<open>Get\<close> fails with the error of line 83 and returns no URL.
\<close>

theorem Get_no_images:
  assumes "parseLocale (LANG w) = Inr locale" and "parseCountry locale = Inr country"
    and "httpGet w (apiUrl country locale) = Some res" and "StatusCode res = 200"
    and "decodeBody res = Some b" and "sliceLen (Items (Batchrsp b)) = 0"
  shows "Get w = Inl ErrNoImages"
  using assms by (simp add: Get_def)

theorem Get_no_images_witness:
  "decodeBody \<lparr>StatusCode = 200, Body = emptyEnvelope, BodyErr = False\<rparr> =
     Some \<lparr>Batchrsp = \<lparr>Items = \<lparr>sliceArray = [], sliceLen = 0\<rparr>\<rparr>\<rparr>
   \<and> Get emptyApiWorld = Inl ErrNoImages"
proof -
  have 1: "parseLocale (LANG emptyApiWorld) = Inr ''en-US''"
    by (simp add: emptyApiWorld_def sampleWorld_def LANG_en_US)
  have 3: "httpGet emptyApiWorld (apiUrl ''US'' ''en-US'')
      = Some \<lparr>StatusCode = 200, Body = emptyEnvelope, BodyErr = False\<rparr>"
    by (simp add: emptyApiWorld_def sampleHttp_def usApi_def)
  have "Get emptyApiWorld = Inl ErrNoImages"
    by (rule Get_no_images [OF 1 LANG_en_US(2) 3 _ emptyEnvelope_body]) simp_all
  then show ?thesis using emptyEnvelope_body by simp
qed

text \<open>
  Claim C4 does not hold of the code. With \<open>LANG\<close> not set, the first segment is empty:
  the locale step returns the empty locale and the empty country instead of an error,
  and \<open>Get\<close> goes on to request \<open>country=&locale=\<close> and returns what the service answers.
\<close>

theorem empty_LANG_not_rejected:
  "parseLocale [] = Inr [] \<and> parseCountry [] = Inr []
   \<and> Get noLangWorld = Inr ''http://x/img.jpg''"
proof -
  have 1: "parseLocale (LANG noLangWorld) = Inr []"
    by (simp add: noLangWorld_def parseLocale_def ReplaceAll_def)
  have 2: "parseCountry [] = Inr []" by (simp add: parseCountry_def)
  have 3: "httpGet noLangWorld (apiUrl [] [])
      = Some \<lparr>StatusCode = 200, Body = sampleEnvelope, BodyErr = False\<rparr>"
    by (simp add: noLangWorld_def sampleHttp_def)
  have "Get noLangWorld = Inr ''http://x/img.jpg''"
    by (rule Get_sample [OF 1 2 3])
  then show ?thesis using 2 by (simp add: parseLocale_def ReplaceAll_def)
qed

section \<open>Properties of writeToDconf\<close>

lemma dconfWrite_result:
  "dconfWrite key v w =
     (dconfExec w key v,
      w\<lparr>dconfCalls := dconfCalls w @ [(key, v)],
        dconfDb := (if dconfExec w key v = ExecOk then (dconfDb w)(key \<mapsto> v) else dconfDb w)\<rparr>)"
  by (cases "dconfExec w key v") (simp_all add: dconfWrite_def)

text \<open>
  What the loop does, in terms of the number \<open>n\<close> of leading keys whose write succeeds:
  it issues the writes for the first \<open>n + 1\<close> keys (for all keys when none fails),
  stores the value under the first \<open>n\<close> keys and changes no other key.
\<close>

lemma writeKeys_run:
  assumes "distinct ks" and "writeKeys p ks w = (r, w')"
  defines "n \<equiv> length (takeWhile (\<lambda>k. dconfExec w k (dconfValue p) = ExecOk) ks)"
  shows "(r = None) = (n = length ks)
       \<and> dconfCalls w' = dconfCalls w @ map (\<lambda>k. (k, dconfValue p)) (take (Suc n) ks)
       \<and> (\<forall>k \<in> set (take n ks). dconfDb w' k = Some (dconfValue p))
       \<and> (\<forall>k. k \<notin> set (take n ks) \<longrightarrow> dconfDb w' k = dconfDb w k)
       \<and> dconfExec w' = dconfExec w"
  using assms(1,2) unfolding n_def
proof (induction ks arbitrary: w)
  case Nil
  then show ?case by simp
next
  case (Cons key ks)
  let ?v = "dconfValue p"
  let ?w1 = "snd (dconfWrite key ?v w)"
  show ?case
  proof (cases "dconfExec w key ?v = ExecOk")
    case True
    then have rest: "writeKeys p ks ?w1 = (r, w')"
      using Cons.prems(2) by (simp add: dconfWrite_result)
    have ex: "dconfExec ?w1 = dconfExec w" by (simp add: dconfWrite_result)
    have d: "distinct ks" and notin: "key \<notin> set ks" using Cons.prems(1) by simp_all
    note IH = Cons.IH [OF d rest, unfolded ex]
    have notin': "key \<notin> set (take m ks)" for m using notin by (meson in_set_takeD)
    from IH True notin' show ?thesis
      by (auto simp: dconfWrite_result)
  next
    case False
    then show ?thesis using Cons.prems(2)
      by (cases "dconfExec w key ?v") (auto simp: dconfWrite_result)
  qed
qed

text \<open>
  Claim C9. A run of \<open>writeToDconf\<close> that returns no error has issued exactly the three
  writes, in the order of the keys, each with the value \<open>'file://P'\<close>. A run that returns
  an error has failed at some key \<open>n\<close>: it has issued the writes up to that key and no
  later one, the keys before it hold the value, and the failing and the later keys hold
  what they held before.
\<close>

theorem writeToDconf_three_writes:
  assumes "writeToDconf P w = (r, w')"
  shows "(r = None \<longrightarrow>
            dconfCalls w' = dconfCalls w @
              [(''/org/gnome/desktop/background/picture-uri'',
                  CHR 0x27 # ''file://'' @ P @ [CHR 0x27]),
               (''/org/gnome/desktop/background/picture-uri-dark'',
                  CHR 0x27 # ''file://'' @ P @ [CHR 0x27]),
               (''/org/gnome/desktop/screensaver/picture-uri'',
                  CHR 0x27 # ''file://'' @ P @ [CHR 0x27])])
       \<and> (r \<noteq> None \<longrightarrow>
            (\<exists>n < 3. dconfExec w (dconfKeys ! n) (dconfValue P) \<noteq> ExecOk
               \<and> dconfCalls w' =
                   dconfCalls w @ map (\<lambda>k. (k, dconfValue P)) (take (Suc n) dconfKeys)
               \<and> (\<forall>k \<in> set (take n dconfKeys). dconfDb w' k = Some (dconfValue P))
               \<and> (\<forall>k \<in> set (drop n dconfKeys). dconfDb w' k = dconfDb w k)))"
proof -
  define n where "n = length (takeWhile (\<lambda>k. dconfExec w k (dconfValue P) = ExecOk) dconfKeys)"
  have dk: "distinct dconfKeys" by (simp add: dconfKeys_def)
  have len: "length dconfKeys = 3" by (simp add: dconfKeys_def)
  have run: "writeKeys P dconfKeys w = (r, w')" using assms by (simp add: writeToDconf_def)
  note R = writeKeys_run [OF dk run, folded n_def]
  have nle: "n \<le> 3" unfolding n_def using length_takeWhile_le [of _ dconfKeys] len by metis
  show ?thesis
  proof (intro conjI impI)
    assume "r = None"
    then have "n = 3" using R len by simp
    then show "dconfCalls w' = dconfCalls w @
              [(''/org/gnome/desktop/background/picture-uri'',
                  CHR 0x27 # ''file://'' @ P @ [CHR 0x27]),
               (''/org/gnome/desktop/background/picture-uri-dark'',
                  CHR 0x27 # ''file://'' @ P @ [CHR 0x27]),
               (''/org/gnome/desktop/screensaver/picture-uri'',
                  CHR 0x27 # ''file://'' @ P @ [CHR 0x27])]"
      using R by (simp add: dconfKeys_def dconfValue_def)
  next
    assume "r \<noteq> None"
    then have lt: "n < 3" using R len nle by auto
    then have "n < length dconfKeys" using len by simp
    then have bad: "dconfExec w (dconfKeys ! n) (dconfValue P) \<noteq> ExecOk"
      unfolding n_def by (rule nth_length_takeWhile)
    have dis: "set (drop n dconfKeys) \<inter> set (take n dconfKeys) = {}"
      using dk by (metis append_take_drop_id distinct_append inf_commute)
    have "\<forall>k \<in> set (drop n dconfKeys). dconfDb w' k = dconfDb w k"
      using R dis by auto
    with lt bad R show "\<exists>n < 3. dconfExec w (dconfKeys ! n) (dconfValue P) \<noteq> ExecOk
               \<and> dconfCalls w' =
                   dconfCalls w @ map (\<lambda>k. (k, dconfValue P)) (take (Suc n) dconfKeys)
               \<and> (\<forall>k \<in> set (take n dconfKeys). dconfDb w' k = Some (dconfValue P))
               \<and> (\<forall>k \<in> set (drop n dconfKeys). dconfDb w' k = dconfDb w k)"
      by blast
  qed
qed

theorem writeToDconf_three_writes_witness:
  "fst (writeToDconf samplePath sampleWorld) = None
   \<and> dconfCalls (snd (writeToDconf samplePath sampleWorld)) =
       [(''/org/gnome/desktop/background/picture-uri'',
           CHR 0x27 # ''file://'' @ samplePath @ [CHR 0x27]),
        (''/org/gnome/desktop/background/picture-uri-dark'',
           CHR 0x27 # ''file://'' @ samplePath @ [CHR 0x27]),
        (''/org/gnome/desktop/screensaver/picture-uri'',
           CHR 0x27 # ''file://'' @ samplePath @ [CHR 0x27])]
   \<and> fst (writeToDconf samplePath dconfFailWorld)
       = Some (ErrExecDconf (Some ''error: permission denied''))
   \<and> (\<exists>n < 3. dconfCalls (snd (writeToDconf samplePath dconfFailWorld)) =
         map (\<lambda>k. (k, dconfValue samplePath)) (take (Suc n) dconfKeys))
   \<and> dconfDb (snd (writeToDconf samplePath dconfFailWorld))
        ''/org/gnome/desktop/background/picture-uri'' = Some (dconfValue samplePath)
   \<and> dconfDb (snd (writeToDconf samplePath dconfFailWorld))
        ''/org/gnome/desktop/screensaver/picture-uri'' = None"
proof -
  have ok: "fst (writeToDconf samplePath sampleWorld) = None"
    by (simp add: writeToDconf_def dconfKeys_def dconfWrite_def sampleWorld_def)
  have bad: "fst (writeToDconf samplePath dconfFailWorld)
      = Some (ErrExecDconf (Some ''error: permission denied''))"
    by (simp add: writeToDconf_def dconfKeys_def dconfWrite_def dconfFailWorld_def
        sampleWorld_def)
  have db: "dconfDb (snd (writeToDconf samplePath dconfFailWorld))
        ''/org/gnome/desktop/background/picture-uri'' = Some (dconfValue samplePath)"
    "dconfDb (snd (writeToDconf samplePath dconfFailWorld))
        ''/org/gnome/desktop/screensaver/picture-uri'' = None"
    by (simp_all add: writeToDconf_def dconfKeys_def dconfWrite_def dconfFailWorld_def
        sampleWorld_def)
  have calls0: "dconfCalls sampleWorld = []" "dconfCalls dconfFailWorld = []"
    by (simp_all add: sampleWorld_def dconfFailWorld_def)
  have p1: "writeToDconf samplePath sampleWorld
      = (fst (writeToDconf samplePath sampleWorld), snd (writeToDconf samplePath sampleWorld))"
    and p2: "writeToDconf samplePath dconfFailWorld
      = (fst (writeToDconf samplePath dconfFailWorld),
         snd (writeToDconf samplePath dconfFailWorld))"
    by simp_all
  from writeToDconf_three_writes [OF p1] ok calls0
  have 1: "dconfCalls (snd (writeToDconf samplePath sampleWorld)) =
       [(''/org/gnome/desktop/background/picture-uri'',
           CHR 0x27 # ''file://'' @ samplePath @ [CHR 0x27]),
        (''/org/gnome/desktop/background/picture-uri-dark'',
           CHR 0x27 # ''file://'' @ samplePath @ [CHR 0x27]),
        (''/org/gnome/desktop/screensaver/picture-uri'',
           CHR 0x27 # ''file://'' @ samplePath @ [CHR 0x27])]"
    by simp
  from writeToDconf_three_writes [OF p2] bad calls0
  have 2: "\<exists>n < 3. dconfCalls (snd (writeToDconf samplePath dconfFailWorld)) =
         map (\<lambda>k. (k, dconfValue samplePath)) (take (Suc n) dconfKeys)"
    by auto
  from ok 1 bad 2 db show ?thesis by blast
qed

section \<open>Properties of newImage\<close>

lemma pathBase_slash_free: "pathBase p = ''/'' \<or> CHR ''/'' \<notin> set (pathBase p)"
proof -
  have "CHR ''/'' \<notin> set (takeWhile (\<lambda>c. c \<noteq> CHR ''/'') xs)" for xs
    by (auto dest: set_takeWhileD)
  then show ?thesis by (auto simp: pathBase_def Let_def)
qed

lemma validName_prefixed: "pathBase url \<noteq> ''/'' \<Longrightarrow> validName (imagePrefix @ pathBase url)"
  using pathBase_slash_free [of url] by (auto simp: validName_def imagePrefix_def)

lemma lookupFile_Some_iff: "(\<exists>f. lookupFile w n = Some f) = (\<exists>f \<in> set (files w). Name f = n)"
proof -
  have "(\<exists>f. lookupFile w n = Some f) = (lookupFile w n \<noteq> None)" by auto
  then show ?thesis by (auto simp: lookupFile_def find_None_iff)
qed

lemma osStat_existing:
  assumes "f \<in> set (files w)" and "Name f = pathBase p" and "dirKind w = Dir"
  shows "osStat w p \<noteq> Inl ErrNotExist"
proof -
  obtain g where "lookupFile w (pathBase p) = Some g"
    using assms lookupFile_Some_iff [of w "pathBase p"] by auto
  then show ?thesis using assms(3) by (auto simp: osStat_def)
qed

text \<open>
  When a file with the name of the image is in the directory, \<open>newImage\<close> fails and
  leaves the world as it is. The error is the one of line 205 once the download has
  returned status 200 and \<open>a.dir\<close> is a directory: the check of line 204 comes after
  the download (lines 181-189) and the checks of \<open>a.dir\<close> (lines 193-200).
\<close>

lemma newImage_existing:
  assumes "Get w = Inr url"
    and "f \<in> set (files w)" and "Name f = imagePrefix @ pathBase url" and "validName (Name f)"
  shows "(\<exists>e. newImage a w = (Inl e, w))
       \<and> (\<forall>res. httpGet w url = Some res \<and> StatusCode res = 200 \<and> dirKind w = Dir
                \<longrightarrow> newImage a w = (Inl ErrImageExists, w))"
proof -
  have "pathBase (pathJoin [dir a, imagePrefix @ pathBase url]) = Name f"
    using assms(3,4) pathBase_pathJoin [of "Name f" "dir a"] by simp
  then have ex: "dirKind w = Dir \<Longrightarrow>
      osStat w (pathJoin [dir a, imagePrefix @ pathBase url]) \<noteq> Inl ErrNotExist"
    using osStat_existing [OF assms(2)] by simp
  show ?thesis
    using assms(1) ex
    by (auto simp: newImage_def Let_def osStatDir_def split: option.splits dirkind.splits)
qed

lemma lookupFile_None_map:
  "lookupFile w n = None \<Longrightarrow> map (\<lambda>g. if Name g = n then h g else g) (files w) = files w"
  by (intro map_idI) (auto simp: lookupFile_def find_None_iff)

text \<open>
  The runs of \<open>newImage\<close> that get as far as creating the file: the URL was resolved and
  downloaded with status 200, no entry of the directory had the name of the image, and
  the world after the run has one more file, with the bytes that were accepted.
\<close>

lemma newImage_created:
  assumes run: "newImage a w = (r, w')" and r: "r = Inr p \<or> r = Inl ErrWriteImageFile"
  shows "\<exists>url res. Get w = Inr url \<and> httpGet w url = Some res \<and> StatusCode res = 200
      \<and> dirKind w = Dir
      \<and> lookupFile w (pathBase (pathJoin [dir a, imagePrefix @ pathBase url])) = None
      \<and> w' = w\<lparr>files := files w @
            [\<lparr>Name = pathBase (pathJoin [dir a, imagePrefix @ pathBase url]), ModTime = now w,
              contents = acceptedBytes w res, immutable = False\<rparr>]\<rparr>
      \<and> r = (if length (acceptedBytes w res) < length (Body res) \<or> BodyErr res
             then Inl ErrWriteImageFile
             else Inr (pathJoin [dir a, imagePrefix @ pathBase url]))"
proof -
  from run r obtain url res w1 where g: "Get w = Inr url" and h: "httpGet w url = Some res"
    and st: "StatusCode res = 200" and dk: "dirKind w = Dir"
    and ne: "osStat w (pathJoin [dir a, imagePrefix @ pathBase url]) = Inl ErrNotExist"
    and cr: "osCreate w (pathJoin [dir a, imagePrefix @ pathBase url]) = Some w1"
    and cp: "(r, w') = (case ioCopy w1 (pathJoin [dir a, imagePrefix @ pathBase url]) res of
                ((n, failed), w2) \<Rightarrow>
                  if failed then (Inl ErrWriteImageFile, w2)
                  else (Inr (pathJoin [dir a, imagePrefix @ pathBase url]), w2))"
    by (auto simp: newImage_def Let_def osStatDir_def
        split: sum.splits option.splits if_splits dirkind.splits)
  let ?P = "pathJoin [dir a, imagePrefix @ pathBase url]"
  have none: "lookupFile w (pathBase ?P) = None"
    using ne dk by (auto simp: osStat_def split: if_splits option.splits)
  have w1: "w1 = w\<lparr>files := files w @
      [\<lparr>Name = pathBase ?P, ModTime = now w, contents = [], immutable = False\<rparr>]\<rparr>"
    using cr none by (auto simp: osCreate_def split: if_splits)
  have m: "map (\<lambda>g. if Name g = pathBase ?P then h g else g) (files w) = files w" for h
    using none by (rule lookupFile_None_map)
  have "ioCopy w1 ?P res =
      ((length (acceptedBytes w res),
        length (acceptedBytes w res) < length (Body res) \<or> BodyErr res),
       w\<lparr>files := files w @
          [\<lparr>Name = pathBase ?P, ModTime = now w, contents = acceptedBytes w res,
            immutable = False\<rparr>]\<rparr>)"
    by (simp add: ioCopy_def w1 acceptedBytes_def Let_def m)
  with cp g h st dk none show ?thesis by auto
qed

lemma acceptedBytes_all:
  "\<not> length (acceptedBytes w res) < length (Body res) \<Longrightarrow> acceptedBytes w res = Body res"
  by (auto simp: acceptedBytes_def split: option.splits)

subsection \<open>The example states\<close>

lemma sample_paths:
  "pathBase ''http://x/img.jpg'' = ''img.jpg''"
  "pathJoin [dir sampleApp, imagePrefix @ ''img.jpg''] = samplePath"
  "pathBase samplePath = ''gnome-spotlight_img.jpg''"
  by (simp_all add: pathBase_def pathJoin_def pathClean_def cleanStep_def sampleApp_def
      imagePrefix_def samplePath_def Let_def)

lemma Get_us:
  assumes "LANG w = ''en_US.UTF-8''"
    and "httpGet w usApi = Some \<lparr>StatusCode = 200, Body = sampleEnvelope, BodyErr = False\<rparr>"
  shows "Get w = Inr ''http://x/img.jpg''"
  using assms by (intro Get_sample [of w "''en-US''" "''US''"]) (simp_all add: LANG_en_US usApi_def)

lemma usApi_not_image: "''http://x/img.jpg'' \<noteq> usApi"
  by (simp add: usApi_def apiUrl_def)

lemma Get_examples:
  "Get apiWorld = Inr ''http://x/img.jpg''"
  "Get apiWorld2 = Inr ''http://x/img.jpg''"
  "Get existingWorld = Inr ''http://x/img.jpg''"
  "Get existing404World = Inr ''http://x/img.jpg''"
  "Get limitedWorld = Inr ''http://x/img.jpg''"
  "Get afterFailedWorld = Inr ''http://x/img.jpg''"
  "Get afterFailed503World = Inr ''http://x/img.jpg''"
  by (rule Get_us;
      simp add: apiWorld_def apiWorld2_def existingWorld_def existing404World_def
        limitedWorld_def afterFailedWorld_def afterFailed503World_def sampleWorld_def
        sampleHttp_def)+

lemma newImage_apiWorld:
  "newImage sampleApp apiWorld =
     (Inr samplePath,
      apiWorld\<lparr>files := sampleFiles @
        [\<lparr>Name = ''gnome-spotlight_img.jpg'', ModTime = 50, contents = ''JPEG'',
          immutable = False\<rparr>]\<rparr>)"
  by (simp add: newImage_def Get_examples sample_paths usApi_not_image)
     (simp add: apiWorld_def sampleWorld_def sampleHttp_def usApi_not_image jpeg_def
        osStatDir_def osStat_def osCreate_def ioCopy_def acceptedBytes_def lookupFile_def
        sampleFiles_def sample_paths Let_def)

lemma newImage_apiWorld2:
  "newImage sampleApp apiWorld2 =
     (Inr samplePath,
      apiWorld2\<lparr>files := sampleFiles @
        [\<lparr>Name = ''gnome-spotlight_img.jpg'', ModTime = 50, contents = ''JPEG-2'',
          immutable = False\<rparr>]\<rparr>)"
  by (simp add: newImage_def Get_examples sample_paths usApi_not_image)
     (simp add: apiWorld2_def sampleWorld_def sampleHttp_def usApi_not_image jpeg_def
        osStatDir_def osStat_def osCreate_def ioCopy_def acceptedBytes_def lookupFile_def
        sampleFiles_def sample_paths Let_def)

lemma newImage_limitedWorld:
  "newImage sampleApp limitedWorld = (Inl ErrWriteImageFile, afterFailedWorld)"
  by (simp add: newImage_def Get_examples sample_paths usApi_not_image)
     (simp add: limitedWorld_def afterFailedWorld_def partialImage_def apiWorld_def
        sampleWorld_def sampleHttp_def usApi_not_image jpeg_def
        osStatDir_def osStat_def osCreate_def ioCopy_def acceptedBytes_def lookupFile_def
        sampleFiles_def sample_paths Let_def)

lemma oldImage_facts:
  "oldImage \<in> set (files existingWorld)" "oldImage \<in> set (files existing404World)"
  "Name oldImage = imagePrefix @ pathBase ''http://x/img.jpg''"
  "validName (Name oldImage)"
  by (simp_all add: existingWorld_def existing404World_def oldImage_def sample_paths
      imagePrefix_def validName_def)

text \<open>
  Claim C7, as amended. When the URL that \<open>Get\<close> resolves has basename \<open>B\<close> and the
  directory holds a file named \<open>imagePrefix @ B\<close>, \<open>newImage\<close> returns an error and
  leaves the world, and so that file, as it is; when moreover the download of the URL
  returns status 200, the error is the already-exists error.
\<close>

theorem newImage_refuses_existing:
  assumes "Get w = Inr url"
    and "f \<in> set (files w)" and "Name f = imagePrefix @ pathBase url" and "validName (Name f)"
  shows "(\<exists>e. newImage a w = (Inl e, w))
       \<and> (\<forall>res. httpGet w url = Some res \<and> StatusCode res = 200 \<and> dirKind w = Dir
                \<longrightarrow> newImage a w = (Inl ErrImageExists, w))"
  using assms by (rule newImage_existing)

theorem newImage_refuses_existing_witness:
  "Get existingWorld = Inr ''http://x/img.jpg''
   \<and> oldImage \<in> set (files existingWorld)
   \<and> Name oldImage = imagePrefix @ pathBase ''http://x/img.jpg''
   \<and> newImage sampleApp existingWorld = (Inl ErrImageExists, existingWorld)"
proof -
  have h: "httpGet existingWorld ''http://x/img.jpg''
      = Some \<lparr>StatusCode = 200, Body = ''JPEG'', BodyErr = False\<rparr>"
    "dirKind existingWorld = Dir"
    by (simp_all add: existingWorld_def apiWorld_def sampleWorld_def sampleHttp_def jpeg_def
        usApi_not_image)
  from newImage_refuses_existing
    [OF Get_examples(3) oldImage_facts(1) oldImage_facts(3) oldImage_facts(4), of sampleApp] h
  have "newImage sampleApp existingWorld = (Inl ErrImageExists, existingWorld)" by simp
  then show ?thesis using Get_examples(3) oldImage_facts by simp
qed

text \<open>
  Claim C7 as stated fails: the file is there, and the server answers the download
  with status 404, so \<open>newImage\<close> returns the error of line 188, not the already-exists
  error.
\<close>

theorem newImage_existing_download_fails:
  "Get existing404World = Inr ''http://x/img.jpg''
   \<and> oldImage \<in> set (files existing404World)
   \<and> Name oldImage = imagePrefix @ pathBase ''http://x/img.jpg''
   \<and> newImage sampleApp existing404World = (Inl (ErrImageStatus 404), existing404World)
   \<and> ErrImageStatus 404 \<noteq> ErrImageExists"
proof -
  have "httpGet existing404World ''http://x/img.jpg''
      = Some \<lparr>StatusCode = 404, Body = [], BodyErr = False\<rparr>"
    by (simp add: existing404World_def sampleHttp_def usApi_not_image)
  then have "newImage sampleApp existing404World
      = (Inl (ErrImageStatus 404), existing404World)"
    by (simp add: newImage_def Get_examples)
  then show ?thesis using Get_examples(4) oldImage_facts by simp
qed

text \<open>
  Claim C8, as amended. A successful run of \<open>newImage\<close> returns the path
  \<open>path.Join(a.dir, imagePrefix + path.Base(url))\<close> and nothing else; the directory then
  has a file at that path, not there before, that holds the whole body of the response.
\<close>

theorem newImage_returns_path:
  assumes "newImage a w = (Inr p, w')"
  shows "\<exists>url res. Get w = Inr url \<and> httpGet w url = Some res
       \<and> p = pathJoin [dir a, imagePrefix @ pathBase url]
       \<and> (\<exists>f \<in> set (files w'). Name f = pathBase p \<and> contents f = Body res)
       \<and> (\<forall>g \<in> set (files w). Name g \<noteq> pathBase p)"
proof -
  from newImage_created [OF assms] obtain url res where
    g: "Get w = Inr url" and h: "httpGet w url = Some res"
    and none: "lookupFile w (pathBase (pathJoin [dir a, imagePrefix @ pathBase url])) = None"
    and w': "w' = w\<lparr>files := files w @
            [\<lparr>Name = pathBase (pathJoin [dir a, imagePrefix @ pathBase url]), ModTime = now w,
              contents = acceptedBytes w res, immutable = False\<rparr>]\<rparr>"
    and r: "Inr p = (if length (acceptedBytes w res) < length (Body res) \<or> BodyErr res
             then Inl ErrWriteImageFile
             else Inr (pathJoin [dir a, imagePrefix @ pathBase url]))"
    by blast
  from r have p: "p = pathJoin [dir a, imagePrefix @ pathBase url]"
    and full: "acceptedBytes w res = Body res"
    by (auto split: if_splits intro: acceptedBytes_all)
  have "\<forall>g \<in> set (files w). Name g \<noteq> pathBase p"
    using none by (auto simp: p lookupFile_def find_None_iff)
  with g h p full w' show ?thesis by auto
qed

theorem newImage_returns_path_witness:
  "newImage sampleApp apiWorld =
     (Inr samplePath,
      apiWorld\<lparr>files := sampleFiles @
        [\<lparr>Name = ''gnome-spotlight_img.jpg'', ModTime = 50, contents = ''JPEG'',
          immutable = False\<rparr>]\<rparr>)
   \<and> (\<exists>url. Get apiWorld = Inr url
         \<and> samplePath = pathJoin [dir sampleApp, imagePrefix @ pathBase url])"
  using newImage_returns_path [OF newImage_apiWorld] newImage_apiWorld by blast

text \<open>
  Claim C8 as stated fails: two runs that write 4 and 6 bytes return the same value,
  the path; the number of bytes is no part of what \<open>newImage\<close> returns.
\<close>

theorem newImage_result_without_byte_count:
  "fst (newImage sampleApp apiWorld) = Inr samplePath
   \<and> fst (newImage sampleApp apiWorld2) = Inr samplePath
   \<and> map_option contents
       (lookupFile (snd (newImage sampleApp apiWorld)) ''gnome-spotlight_img.jpg'') = Some ''JPEG''
   \<and> map_option contents
       (lookupFile (snd (newImage sampleApp apiWorld2)) ''gnome-spotlight_img.jpg'')
         = Some ''JPEG-2''
   \<and> length ''JPEG'' \<noteq> length ''JPEG-2''"
  by (simp add: newImage_apiWorld newImage_apiWorld2 lookupFile_def sampleFiles_def)

text \<open>
  Claim C10, as amended. When \<open>newImage\<close> fails while copying the body (line 215), the
  file it created stays in the directory under the name \<open>imagePrefix @ B\<close>, with a prefix
  of the body as its contents; a later run on that directory that resolves a URL with
  the same basename \<open>B\<close> and downloads it with status 200 fails with the already-exists
  error. (\<open>B\<close> is not \<open>"/"\<close>: the URL does not consist of slashes only.)
\<close>

theorem newImage_leaves_partial_file:
  assumes run: "newImage a w = (Inl ErrWriteImageFile, w')"
    and g: "Get w = Inr url" and b: "pathBase url \<noteq> ''/''"
  shows "(\<exists>f \<in> set (files w'). \<exists>res. Name f = imagePrefix @ pathBase url
            \<and> httpGet w url = Some res \<and> contents f = take (length (contents f)) (Body res))
       \<and> (\<forall>w2 url2 res2. files w2 = files w' \<and> dirKind w2 = Dir \<and> Get w2 = Inr url2
              \<and> pathBase url2 = pathBase url \<and> httpGet w2 url2 = Some res2
              \<and> StatusCode res2 = 200
            \<longrightarrow> newImage a w2 = (Inl ErrImageExists, w2))"
proof -
  let ?n = "imagePrefix @ pathBase url"
  have v: "validName ?n" using b by (rule validName_prefixed)
  then have pb: "pathBase (pathJoin [dir a, ?n]) = ?n" by (rule pathBase_pathJoin)
  from newImage_created [OF run] g obtain res where h: "httpGet w url = Some res"
    and w': "w' = w\<lparr>files := files w @
            [\<lparr>Name = ?n, ModTime = now w, contents = acceptedBytes w res, immutable = False\<rparr>]\<rparr>"
    by (auto simp: pb)
  let ?f = "\<lparr>Name = ?n, ModTime = now w, contents = acceptedBytes w res, immutable = False\<rparr>"
  have fin: "?f \<in> set (files w')" by (simp add: w')
  have pre: "contents ?f = take (length (contents ?f)) (Body res)"
    by (auto simp: acceptedBytes_def min_def split: option.splits)
  have first: "\<exists>f \<in> set (files w'). \<exists>res. Name f = ?n
            \<and> httpGet w url = Some res \<and> contents f = take (length (contents f)) (Body res)"
    using fin h pre by (intro bexI [of _ ?f] exI [of _ res]) simp_all
  have second: "newImage a w2 = (Inl ErrImageExists, w2)"
    if "files w2 = files w'" "dirKind w2 = Dir" "Get w2 = Inr url2"
      "pathBase url2 = pathBase url" "httpGet w2 url2 = Some res2" "StatusCode res2 = 200"
    for w2 url2 res2
  proof -
    have "?f \<in> set (files w2)" using fin that(1) by simp
    moreover have "Name ?f = imagePrefix @ pathBase url2" using that(4) by simp
    moreover have "validName (Name ?f)" using v by simp
    ultimately show ?thesis
      using newImage_existing [OF that(3), of ?f a] that(2,5,6) by blast
  qed
  from first second show ?thesis by blast
qed

theorem newImage_leaves_partial_file_witness:
  "newImage sampleApp limitedWorld = (Inl ErrWriteImageFile, afterFailedWorld)
   \<and> lookupFile afterFailedWorld (imagePrefix @ pathBase ''http://x/img.jpg'') = Some partialImage
   \<and> contents partialImage = ''JP''
   \<and> newImage sampleApp afterFailedWorld = (Inl ErrImageExists, afterFailedWorld)"
proof -
  have b: "pathBase ''http://x/img.jpg'' \<noteq> ''/''" by (simp add: sample_paths)
  have h: "httpGet afterFailedWorld ''http://x/img.jpg''
      = Some \<lparr>StatusCode = 200, Body = ''JPEG'', BodyErr = False\<rparr>"
    "dirKind afterFailedWorld = Dir"
    by (simp_all add: afterFailedWorld_def limitedWorld_def apiWorld_def sampleWorld_def
        sampleHttp_def jpeg_def usApi_not_image)
  from newImage_leaves_partial_file [OF newImage_limitedWorld Get_examples(5) b]
  have "\<forall>w2 url2 res2. files w2 = files afterFailedWorld \<and> dirKind w2 = Dir
      \<and> Get w2 = Inr url2 \<and> pathBase url2 = pathBase ''http://x/img.jpg''
      \<and> httpGet w2 url2 = Some res2 \<and> StatusCode res2 = 200
      \<longrightarrow> newImage sampleApp w2 = (Inl ErrImageExists, w2)"
    by blast
  then have 2: "newImage sampleApp afterFailedWorld = (Inl ErrImageExists, afterFailedWorld)"
    using Get_examples(6) h by simp
  have 1: "lookupFile afterFailedWorld (imagePrefix @ pathBase ''http://x/img.jpg'')
      = Some partialImage"
    by (simp add: afterFailedWorld_def lookupFile_def sampleFiles_def partialImage_def
        sample_paths imagePrefix_def)
  show ?thesis using newImage_limitedWorld 1 2 by (simp add: partialImage_def)
qed

text \<open>
  Claim C10 as stated fails: after the failed run, a run that resolves the same URL
  while the server of the image answers with status 503 returns the error of line 188,
  not the already-exists error.
\<close>

theorem newImage_after_partial_download_fails:
  "newImage sampleApp limitedWorld = (Inl ErrWriteImageFile, afterFailedWorld)
   \<and> files afterFailed503World = files afterFailedWorld
   \<and> Get afterFailed503World = Inr ''http://x/img.jpg''
   \<and> newImage sampleApp afterFailed503World
       = (Inl (ErrImageStatus 503), afterFailed503World)
   \<and> ErrImageStatus 503 \<noteq> ErrImageExists"
proof -
  have "httpGet afterFailed503World ''http://x/img.jpg''
      = Some \<lparr>StatusCode = 503, Body = [], BodyErr = False\<rparr>"
    by (simp add: afterFailed503World_def sampleHttp_def usApi_not_image)
  then have "newImage sampleApp afterFailed503World
      = (Inl (ErrImageStatus 503), afterFailed503World)"
    by (simp add: newImage_def Get_examples)
  then show ?thesis
    using newImage_limitedWorld Get_examples(7) by (simp add: afterFailed503World_def)
qed

end
